theory Spec2Isabelle
  imports Main
begin

section \<open>Data model (src/types/windowAttach.ts)\<close>

text \<open>
  Window ids and coordinates are JavaScript numbers produced by \<^verbatim>\<open>Number.parseInt\<close> and
  filtered by \<^verbatim>\<open>Number.isFinite\<close>, hence integers; they are modelled as \<open>int\<close>.
  \<^verbatim>\<open>Electron.Rectangle\<close> has the same four fields as \<^verbatim>\<open>Geometry\<close> and the
  source passes one where the other is expected, so both are the record \<open>Geometry\<close>.
\<close>

record Geometry =
  x :: int
  y :: int
  width :: int
  height :: int

text \<open>\<^verbatim>\<open>type X11Geometry = Geometry & { mapped: boolean }\<close>\<close>

record X11Geometry = Geometry +
  mapped :: bool

datatype AttachMode = Attached | Detached | Follow

record AttachState =
  mode :: AttachMode
  targetId :: "int option"
  lastGeometry :: "Geometry option"

section \<open>The geometry watcher (X11Provider.watchGeometry)\<close>

text \<open>
  \<^verbatim>\<open>opts\<close> of \<^verbatim>\<open>watchGeometry\<close>: the two callbacks act on a state \<open>'s\<close>;
  \<^verbatim>\<open>onMissing\<close> is optional.
\<close>

record 's watch_opts =
  onChange :: "X11Geometry \<Rightarrow> 's \<Rightarrow> 's"
  onMissing :: "('s \<Rightarrow> 's) option"

text \<open>
  The body of the interval callback after \<^verbatim>\<open>await this.getGeometry(windowId)\<close> has
  delivered \<open>g\<close>. The first component of the pair is the closure variable \<^verbatim>\<open>last\<close>.
\<close>

definition watchGeometry_tick ::
  "'s watch_opts \<Rightarrow> X11Geometry option \<Rightarrow> X11Geometry option \<times> 's \<Rightarrow> X11Geometry option \<times> 's" where
  "watchGeometry_tick opts polled ls =
     (case ls of (lastEmitted, s) \<Rightarrow>
        (case polled of
           None \<Rightarrow> (case onMissing opts of Some f \<Rightarrow> (lastEmitted, f s) | None \<Rightarrow> (lastEmitted, s))
         | Some g \<Rightarrow>
             (case lastEmitted of
                None \<Rightarrow> (Some g, onChange opts g s)
              | Some l \<Rightarrow>
                  if x g \<noteq> x l \<or> y g \<noteq> y l \<or> width g \<noteq> width l \<or> height g \<noteq> height l
                     \<or> mapped g \<noteq> mapped l
                  then (Some g, onChange opts g s)
                  else (lastEmitted, s))))"

text \<open>A sequence of ticks of one watcher, each with the geometry its poll returned.\<close>

definition watchGeometry_ticks ::
  "'s watch_opts \<Rightarrow> X11Geometry option list \<Rightarrow> X11Geometry option \<times> 's \<Rightarrow> X11Geometry option \<times> 's" where
  "watchGeometry_ticks opts polls ls = fold (watchGeometry_tick opts) polls ls"

text \<open>Callbacks that only record that they were invoked, and with what.\<close>

datatype callback = Changed X11Geometry | Missing

definition recording :: "callback list watch_opts" where
  "recording = \<lparr> onChange = (\<lambda>g tr. tr @ [Changed g]), onMissing = Some (\<lambda>tr. tr @ [Missing]) \<rparr>"

fun is_Changed :: "callback \<Rightarrow> bool" where
  "is_Changed (Changed g) = True"
| "is_Changed Missing = False"

section \<open>The overlay window and the timers of the event loop\<close>

text \<open>
  The Electron \<^verbatim>\<open>BrowserWindow\<close> that \<^verbatim>\<open>getOverlayWindow()\<close> returns: the part of it the
  service reads and writes. \<^verbatim>\<open>setBounds\<close> is taken to store exactly the rectangle it is given.
\<close>

record BrowserWindow =
  bounds :: Geometry
  visible :: bool
  alwaysOnTop :: bool
  visibleOnAllWorkspaces :: bool
  ignoreMouseEvents :: bool

datatype overlay_write =
    SetBounds Geometry
  | SetAlwaysOnTop
  | SetVisibleOnAllWorkspaces
  | SetIgnoreMouseEvents
  | ShowInactive
  | Hide

fun is_SetBounds :: "overlay_write \<Rightarrow> bool" where
  "is_SetBounds (SetBounds b) = True"
| "is_SetBounds _ = False"

text \<open>
  What an interval callback closes over. Every callback of the source starts with an awaited
  provider call, so a closure outlives \<^verbatim>\<open>clearInterval\<close> for as long as one of its polls
  is in flight.
  \<^item> \<open>GeometryWatch windowId last\<close>: the callback of \<^verbatim>\<open>watchGeometry\<close>;
  \<^item> \<open>VisibilityTimer windowId\<close>: \<^verbatim>\<open>visTimer\<close> of \<^verbatim>\<open>attach\<close>;
  \<^item> \<open>FollowTick lastActive\<close>: \<^verbatim>\<open>tick\<close> of \<^verbatim>\<open>followFocused\<close> with its local
    variable \<^verbatim>\<open>lastActive\<close>.
\<close>

datatype closure =
    GeometryWatch int "X11Geometry option"
  | VisibilityTimer int
  | FollowTick "int option"

type_synonym handle = nat

text \<open>
  The fields of \<^verbatim>\<open>class WindowAttachService\<close> (a \<^verbatim>\<open>stop...\<close> function is the handle
  of the interval it clears; \<open>provider\<close> says whether the provider is non-null), followed by
  what its closures reach: the overlay window, the primary display, the intervals that are
  scheduled, the closures and the provider calls in flight. \<open>writes\<close> logs every mutating
  call on the overlay window.
\<close>

record world =
  provider :: bool
  state :: AttachState
  stopWatch :: "handle option"
  stopFollow :: "handle option"
  stopVisibilityWatch :: "handle option"
  pollMs :: int
  enabled :: bool
  preAttachBounds :: "Geometry option"
  lastMapped :: bool
  lastActive :: bool
  overlay :: "BrowserWindow option"
  primaryDisplay :: Geometry
  writes :: "overlay_write list"
  closures :: "handle \<Rightarrow> closure option"
  nextHandle :: handle
  intervals :: "handle set"
  inflight :: "handle list"

definition detached_state :: AttachState where
  "detached_state = \<lparr> mode = Detached, targetId = None, lastGeometry = None \<rparr>"

text \<open>
  The constructor, with \<^verbatim>\<open>opts?.pollMs\<close>, \<^verbatim>\<open>opts?.enabled\<close> and the value of
  \<^verbatim>\<open>isX11Session()\<close> as parameters, in a world whose overlay window and display are given.
\<close>

definition new_service :: "int option \<Rightarrow> bool option \<Rightarrow> bool \<Rightarrow> BrowserWindow option \<Rightarrow> Geometry \<Rightarrow> world" where
  "new_service optPollMs optEnabled isX11 win display =
     (let en = (case optEnabled of Some e \<Rightarrow> e | None \<Rightarrow> isX11) in
      \<lparr> provider = (en \<and> isX11),
        state = detached_state,
        stopWatch = None, stopFollow = None, stopVisibilityWatch = None,
        pollMs = max 50 (min 500 (case optPollMs of Some p \<Rightarrow> p | None \<Rightarrow> 100)),
        enabled = en,
        preAttachBounds = None,
        lastMapped = False,
        lastActive = False,
        overlay = win,
        primaryDisplay = display,
        writes = [],
        closures = (\<lambda>h. None),
        nextHandle = 0,
        intervals = {},
        inflight = [] \<rparr>)"

subsection \<open>setInterval and clearInterval\<close>

definition setInterval :: "closure \<Rightarrow> world \<Rightarrow> handle \<times> world" where
  "setInterval c w =
     (nextHandle w,
      w\<lparr> closures := (closures w)(nextHandle w \<mapsto> c),
         intervals := insert (nextHandle w) (intervals w),
         nextHandle := Suc (nextHandle w) \<rparr>)"

definition clearInterval :: "handle \<Rightarrow> world \<Rightarrow> world" where
  "clearInterval h w = w\<lparr> intervals := intervals w - {h} \<rparr>"

subsection \<open>Methods of the overlay window\<close>

definition win_call :: "(BrowserWindow \<Rightarrow> BrowserWindow) \<Rightarrow> overlay_write \<Rightarrow> world \<Rightarrow> world" where
  "win_call f wr w = w\<lparr> overlay := map_option f (overlay w), writes := writes w @ [wr] \<rparr>"

definition setBounds :: "Geometry \<Rightarrow> world \<Rightarrow> world" where
  "setBounds b = win_call (\<lambda>bw. bw\<lparr> bounds := b \<rparr>) (SetBounds b)"

definition setAlwaysOnTop :: "world \<Rightarrow> world" where
  "setAlwaysOnTop = win_call (\<lambda>bw. bw\<lparr> alwaysOnTop := True \<rparr>) SetAlwaysOnTop"

definition setVisibleOnAllWorkspaces :: "world \<Rightarrow> world" where
  "setVisibleOnAllWorkspaces = win_call (\<lambda>bw. bw\<lparr> visibleOnAllWorkspaces := True \<rparr>) SetVisibleOnAllWorkspaces"

definition setIgnoreMouseEvents :: "world \<Rightarrow> world" where
  "setIgnoreMouseEvents = win_call (\<lambda>bw. bw\<lparr> ignoreMouseEvents := True \<rparr>) SetIgnoreMouseEvents"

definition showInactive :: "world \<Rightarrow> world" where
  "showInactive = win_call (\<lambda>bw. bw\<lparr> visible := True \<rparr>) ShowInactive"

definition hide :: "world \<Rightarrow> world" where
  "hide = win_call (\<lambda>bw. bw\<lparr> visible := False \<rparr>) Hide"

definition isVisible :: "world \<Rightarrow> bool" where
  "isVisible w = (case overlay w of Some bw \<Rightarrow> visible bw | None \<Rightarrow> False)"

section \<open>WindowAttachService (src/main/windowAttach.ts)\<close>

definition getState :: "world \<Rightarrow> AttachState" where
  "getState w = state w"

definition isEnabled :: "world \<Rightarrow> bool" where
  "isEnabled w = (enabled w \<and> provider w)"

definition applyOverlayBounds :: "'a Geometry_scheme \<Rightarrow> bool \<Rightarrow> world \<Rightarrow> world" where
  "applyOverlayBounds g m w =
     (case overlay w of
        None \<Rightarrow> w
      | Some win \<Rightarrow>
          if \<not> m then (if isVisible w then hide w else w)
          else
            let b = bounds win in
            if x b \<noteq> x g \<or> y b \<noteq> y g \<or> width b \<noteq> width g \<or> height b \<noteq> height g then
              (let w1 = setBounds \<lparr> x = x g, y = y g, width = width g, height = height g \<rparr> w;
                   w2 = setAlwaysOnTop w1;
                   w3 = setVisibleOnAllWorkspaces w2;
                   w4 = setIgnoreMouseEvents w3
               in if \<not> isVisible w4 then showInactive w4 else w4)
            else if \<not> isVisible w \<and> m then showInactive w
            else w)"

definition stopAll :: "world \<Rightarrow> world" where
  "stopAll w =
     (let w1 = (case stopWatch w of Some h \<Rightarrow> (clearInterval h w)\<lparr> stopWatch := None \<rparr> | None \<Rightarrow> w);
          w2 = (case stopFollow w1 of Some h \<Rightarrow> (clearInterval h w1)\<lparr> stopFollow := None \<rparr> | None \<Rightarrow> w1);
          w3 = (case stopVisibilityWatch w2 of
                  Some h \<Rightarrow> (clearInterval h w2)\<lparr> stopVisibilityWatch := None \<rparr>
                | None \<Rightarrow> w2)
      in w3)"

definition restoreOverlayBounds :: "world \<Rightarrow> world" where
  "restoreOverlayBounds w =
     (case overlay w of
        None \<Rightarrow> w
      | Some win \<Rightarrow>
          let w1 = (case preAttachBounds w of
                      Some b \<Rightarrow> setBounds \<lparr> x = x b, y = y b, width = width b, height = height b \<rparr> w
                    | None \<Rightarrow>
                        let d = primaryDisplay w in
                        setBounds \<lparr> x = x d, y = y d, width = width d, height = height d \<rparr> w);
              w2 = setAlwaysOnTop w1;
              w3 = setVisibleOnAllWorkspaces w2;
              w4 = setIgnoreMouseEvents w3
          in if \<not> isVisible w4 then showInactive w4 else w4)"

definition syncOverlayVisibility :: "world \<Rightarrow> world" where
  "syncOverlayVisibility w =
     (case overlay w of
        None \<Rightarrow> w
      | Some win \<Rightarrow>
          let shouldShow = (lastMapped w \<and> lastActive w) in
          if shouldShow then (if \<not> isVisible w then showInactive w else w)
          else (if isVisible w then hide w else w))"

text \<open>The two callbacks that \<^verbatim>\<open>attach\<close> hands to \<^verbatim>\<open>watchGeometry\<close>.\<close>

definition attach_onChange :: "X11Geometry \<Rightarrow> world \<Rightarrow> world" where
  "attach_onChange g w =
     (let w1 = w\<lparr> state := (state w)\<lparr> lastGeometry :=
                     Some \<lparr> x = x g, y = y g, width = width g, height = height g \<rparr> \<rparr> \<rparr>;
          w2 = w1\<lparr> lastMapped := mapped g \<rparr>;
          w3 = applyOverlayBounds g (mapped g) w2
      in syncOverlayVisibility w3)"

definition attach_onMissing :: "world \<Rightarrow> world" where
  "attach_onMissing w =
     (let w1 = w\<lparr> lastMapped := False \<rparr>
      in if isVisible w1 then hide w1 else w1)"

definition attach_opts :: "world watch_opts" where
  "attach_opts = \<lparr> onChange = attach_onChange, onMissing = Some attach_onMissing \<rparr>"

text \<open>
  \<^verbatim>\<open>watchGeometry\<close> itself: it creates the closure with \<^verbatim>\<open>last = null\<close>, schedules the
  interval and returns the function that clears it (here: the handle).
\<close>

definition watchGeometry :: "int \<Rightarrow> world \<Rightarrow> handle \<times> world" where
  "watchGeometry windowId w = setInterval (GeometryWatch windowId None) w"

definition attach :: "int \<Rightarrow> world \<Rightarrow> bool \<times> world" where
  "attach windowId w =
     (if \<not> isEnabled w then (False, w)
      else case overlay w of
        None \<Rightarrow> (False, w)
      | Some win \<Rightarrow>
          let w1 = (if mode (state w) = Detached then w\<lparr> preAttachBounds := Some (bounds win) \<rparr> else w);
              w2 = stopAll w1;
              w3 = w2\<lparr> state := \<lparr> mode = Attached, targetId = Some windowId, lastGeometry = None \<rparr> \<rparr>;
              hw = watchGeometry windowId w3;
              w4 = (snd hw)\<lparr> stopWatch := Some (fst hw) \<rparr>;
              hv = setInterval (VisibilityTimer windowId) w4;
              w5 = (snd hv)\<lparr> stopVisibilityWatch := Some (fst hv) \<rparr>
          in (True, w5))"

text \<open>
  The interval callback of \<^verbatim>\<open>visTimer\<close> after \<^verbatim>\<open>await getActiveWindow()\<close> has delivered
  \<open>active\<close>.
\<close>

definition visTimer_resume :: "int \<Rightarrow> int option \<Rightarrow> world \<Rightarrow> world" where
  "visTimer_resume windowId active w =
     syncOverlayVisibility (w\<lparr> lastActive := (active = Some windowId) \<rparr>)"

text \<open>
  \<^verbatim>\<open>tick\<close> of \<^verbatim>\<open>followFocused\<close>: \<open>tick_start\<close> runs up to the awaited
  \<^verbatim>\<open>getActiveWindow()\<close>, \<open>tick_resume\<close> is the rest, run when the call has delivered
  \<open>r\<close>. \<^verbatim>\<open>attach\<close> has no await of its own, and the continuation of
  \<^verbatim>\<open>await this.attach(id)\<close> is a microtask, run before any timer, subprocess completion or
  host request is dispatched: the rest of the tick is one step.
\<close>

definition tick_start :: "handle \<Rightarrow> world \<Rightarrow> world" where
  "tick_start t w = w\<lparr> inflight := inflight w @ [t] \<rparr>"

definition tick_resume :: "handle \<Rightarrow> int option \<Rightarrow> world \<Rightarrow> world" where
  "tick_resume t r w =
     (case closures w t of
        Some (FollowTick la) \<Rightarrow>
          (case r of
             None \<Rightarrow> w
           | Some i \<Rightarrow>
               if i = 0 then w
               else if Some i \<noteq> la then
                 (let w1 = w\<lparr> closures := (closures w)(t \<mapsto> FollowTick (Some i)) \<rparr>;
                      w2 = snd (attach i w1)
                  in w2\<lparr> state := (state w2)\<lparr> mode := Follow \<rparr> \<rparr>)
               else w)
      | _ \<Rightarrow> w)"

text \<open>
  The boolean is the value the returned promise resolves with; for \<open>enable = True\<close> it
  resolves once the first tick has finished.
\<close>

definition followFocused :: "bool \<Rightarrow> world \<Rightarrow> bool \<times> world" where
  "followFocused enable w =
     (if \<not> isEnabled w then (False, w)
      else
        let w1 = stopAll w in
        if \<not> enable then
          (True, restoreOverlayBounds (w1\<lparr> state := detached_state \<rparr>))
        else
          let w2 = w1\<lparr> state := \<lparr> mode = Follow, targetId = None, lastGeometry = None \<rparr> \<rparr>;
              ht = setInterval (FollowTick None) w2;
              w3 = (snd ht)\<lparr> stopFollow := Some (fst ht) \<rparr>
          in (True, tick_start (fst ht) w3))"

definition detach :: "world \<Rightarrow> bool \<times> world" where
  "detach w =
     (if \<not> isEnabled w then (True, w\<lparr> state := detached_state \<rparr>)
      else (True, restoreOverlayBounds ((stopAll w)\<lparr> state := detached_state \<rparr>)))"

section \<open>The event loop\<close>

text \<open>
  What can happen next: the host calls a method; an interval that is still scheduled fires and
  its callback starts a provider call; a provider call in flight (the \<open>i\<close>-th) completes
  with a result and the callback that awaited it runs to its end. JavaScript runs each of
  these to completion before the next one starts. \<^verbatim>\<open>clearInterval\<close> stops future ticks
  only: a call in flight stays in flight, and its callback runs when it completes.

  The result of a provider call is chosen by the environment: \<^verbatim>\<open>getGeometry\<close> delivers a
  geometry or null, \<^verbatim>\<open>getActiveWindow\<close> a window id or null. A result of the wrong kind
  for the callback that awaits it cannot occur; such an event only removes the call from those
  in flight. Nothing but the service writes to the overlay window, and
  \<^verbatim>\<open>getOverlayWindow()\<close> keeps returning the same window (or null).
\<close>

datatype poll_result = GeometryResult "X11Geometry option" | ActiveResult "int option"

datatype event =
    CallAttach int
  | CallDetach
  | CallFollowFocused bool
  | TimerFire handle
  | PollDone nat poll_result

definition geometry_resume :: "handle \<Rightarrow> X11Geometry option \<Rightarrow> world \<Rightarrow> world" where
  "geometry_resume h g w =
     (case closures w h of
        Some (GeometryWatch windowId lastEmitted) \<Rightarrow>
          (let ls = watchGeometry_tick attach_opts g (lastEmitted, w)
           in (snd ls)\<lparr> closures := (closures (snd ls))(h \<mapsto> GeometryWatch windowId (fst ls)) \<rparr>)
      | _ \<Rightarrow> w)"

definition poll_done :: "handle \<Rightarrow> poll_result \<Rightarrow> world \<Rightarrow> world" where
  "poll_done h r w =
     (case (closures w h, r) of
        (Some (GeometryWatch windowId lastEmitted), GeometryResult g) \<Rightarrow> geometry_resume h g w
      | (Some (VisibilityTimer windowId), ActiveResult a) \<Rightarrow> visTimer_resume windowId a w
      | (Some (FollowTick la), ActiveResult a) \<Rightarrow> tick_resume h a w
      | _ \<Rightarrow> w)"

definition step :: "event \<Rightarrow> world \<Rightarrow> world" where
  "step e w =
     (case e of
        CallAttach windowId \<Rightarrow> snd (attach windowId w)
      | CallDetach \<Rightarrow> snd (detach w)
      | CallFollowFocused enable \<Rightarrow> snd (followFocused enable w)
      | TimerFire h \<Rightarrow> if h \<in> intervals w then w\<lparr> inflight := inflight w @ [h] \<rparr> else w
      | PollDone i r \<Rightarrow>
          if i < length (inflight w)
          then poll_done (inflight w ! i) r (w\<lparr> inflight := take i (inflight w) @ drop (Suc i) (inflight w) \<rparr>)
          else w)"

definition run :: "event list \<Rightarrow> world \<Rightarrow> world" where
  "run es w = fold step es w"

fun is_timer_event :: "event \<Rightarrow> bool" where
  "is_timer_event (TimerFire h) = True"
| "is_timer_event (PollDone i r) = True"
| "is_timer_event _ = False"

section \<open>Invariants and auxiliary notions\<close>

text \<open>The intervals that the three \<^verbatim>\<open>stop...\<close> fields of the service can still clear.\<close>

definition owned :: "world \<Rightarrow> handle set" where
  "owned w = set_option (stopWatch w) \<union> set_option (stopFollow w) \<union> set_option (stopVisibilityWatch w)"

text \<open>
  Every scheduled interval is one the service can clear, and a disabled service has neither
  intervals nor polls. It holds after the constructor and is kept by every event.
\<close>

definition timers_ok :: "world \<Rightarrow> bool" where
  "timers_ok w = (intervals w \<subseteq> owned w \<and> (\<not> isEnabled w \<longrightarrow> intervals w = {} \<and> inflight w = []))"

text \<open>The rectangle \<^verbatim>\<open>restoreOverlayBounds\<close> writes.\<close>

definition restore_target :: "world \<Rightarrow> Geometry" where
  "restore_target w = (case preAttachBounds w of Some b \<Rightarrow> b | None \<Rightarrow> primaryDisplay w)"

text \<open>
  The part of the world that no watcher callback (\<^verbatim>\<open>onChange\<close>, \<^verbatim>\<open>onMissing\<close>, the
  visibility watchdog) assigns.
\<close>

definition ctl ::
  "world \<Rightarrow> bool \<times> bool \<times> Geometry \<times> Geometry option \<times> AttachMode \<times> int option \<times> handle set
     \<times> handle option \<times> handle option \<times> handle option \<times> handle \<times> handle list" where
  "ctl w = (enabled w, provider w, primaryDisplay w, preAttachBounds w, mode (state w),
            targetId (state w), intervals w, stopWatch w, stopFollow w, stopVisibilityWatch w,
            nextHandle w, inflight w)"

text \<open>The service is attached or following and holds the snapshot \<open>b\<close>.\<close>

definition holding_snapshot :: "Geometry \<Rightarrow> world \<Rightarrow> bool" where
  "holding_snapshot b w =
     (isEnabled w \<and> overlay w \<noteq> None \<and> mode (state w) \<noteq> Detached \<and> preAttachBounds w = Some b)"

definition is_release :: "event \<Rightarrow> bool" where
  "is_release e = (e = CallDetach \<or> e = CallFollowFocused False)"

text \<open>The \<^verbatim>\<open>setBounds\<close> calls among the overlay writes so far.\<close>

definition bounds_writes :: "world \<Rightarrow> overlay_write list" where
  "bounds_writes w = filter is_SetBounds (writes w)"

text \<open>
  The invariant of \<^verbatim>\<open>AttachState\<close>. First part: no target in mode Detached, a target in
  mode Attached; mode Follow has a target once it has attached to one.
\<close>

definition target_matches_mode :: "AttachState \<Rightarrow> bool" where
  "target_matches_mode s =
     ((mode s = Detached \<longrightarrow> targetId s = None) \<and> (mode s = Attached \<longrightarrow> targetId s \<noteq> None))"

text \<open>
  Second part: a last geometry is there only when the geometry watcher of the current attach
  (the one \<^verbatim>\<open>stopWatch\<close> clears) has had a successful poll, that is, has emitted a value.
\<close>

fun has_emitted :: "closure option \<Rightarrow> bool" where
  "has_emitted (Some (GeometryWatch windowId (Some l))) = True"
| "has_emitted _ = False"

definition watcher_has_emitted :: "world \<Rightarrow> bool" where
  "watcher_has_emitted w = (case stopWatch w of None \<Rightarrow> False | Some h \<Rightarrow> has_emitted (closures w h))"

definition AttachState_invariant :: "world \<Rightarrow> bool" where
  "AttachState_invariant w =
     (target_matches_mode (state w) \<and> (lastGeometry (state w) = None \<or> watcher_has_emitted w))"

text \<open>No tick of a follow loop is scheduled or in flight.\<close>

fun is_FollowTick :: "closure option \<Rightarrow> bool" where
  "is_FollowTick (Some (FollowTick la)) = True"
| "is_FollowTick _ = False"

definition no_follow :: "world \<Rightarrow> bool" where
  "no_follow w = (\<forall>h \<in> intervals w \<union> set (inflight w). \<not> is_FollowTick (closures w h))"

text \<open>
  Conditions under which no poll of an earlier attach can complete: every handle in use has been
  allocated, and every geometry poll that is scheduled or in flight is one of the current
  watcher.
\<close>

fun is_GeometryWatch :: "closure option \<Rightarrow> bool" where
  "is_GeometryWatch (Some (GeometryWatch windowId l)) = True"
| "is_GeometryWatch _ = False"

definition handles_fresh :: "world \<Rightarrow> bool" where
  "handles_fresh w = (\<forall>h \<in> intervals w \<union> set (inflight w). h < nextHandle w)"

definition polls_current :: "world \<Rightarrow> bool" where
  "polls_current w =
     (\<forall>h \<in> intervals w \<union> set (inflight w). is_GeometryWatch (closures w h) \<longrightarrow> stopWatch w = Some h)"

definition engine_ok :: "world \<Rightarrow> bool" where
  "engine_ok w = (timers_ok w \<and> handles_fresh w \<and> polls_current w)"

definition no_geometry_inflight :: "world \<Rightarrow> bool" where
  "no_geometry_inflight w = (\<forall>h \<in> set (inflight w). \<not> is_GeometryWatch (closures w h))"

text \<open>
  The events that replace the attach state: a call of the host, and the completion of the
  poll of a follow tick (which may call \<^verbatim>\<open>attach\<close>).
\<close>

definition replaces_state :: "event \<Rightarrow> world \<Rightarrow> bool" where
  "replaces_state e w =
     (case e of
        TimerFire h \<Rightarrow> False
      | PollDone j r \<Rightarrow> j < length (inflight w) \<and> is_FollowTick (closures w (inflight w ! j))
      | _ \<Rightarrow> True)"

section \<open>Sample inputs\<close>

definition sample_window :: BrowserWindow where
  "sample_window = \<lparr> bounds = \<lparr> x = 0, y = 0, width = 1920, height = 1080 \<rparr>, visible = True,
     alwaysOnTop = True, visibleOnAllWorkspaces = True, ignoreMouseEvents = True \<rparr>"

definition sample_display :: Geometry where
  "sample_display = \<lparr> x = 0, y = 0, width = 2560, height = 1440 \<rparr>"

definition enabled_world :: world where
  "enabled_world = new_service None None True (Some sample_window) sample_display"

definition disabled_world :: world where
  "disabled_world = new_service None None False (Some sample_window) sample_display"

definition sample_geometry :: X11Geometry where
  "sample_geometry = \<lparr> x = 100, y = 100, width = 800, height = 600, mapped = True \<rparr>"

section \<open>Edge-triggering of the geometry watcher\<close>

lemma tick_same_noop:
  "watchGeometry_tick opts (Some g) (Some g, s) = (Some g, s)"
  by (simp add: watchGeometry_tick_def)

lemma ticks_same_noop:
  "watchGeometry_ticks opts (replicate n (Some g)) (Some g, s) = (Some g, s)"
  by (induction n) (simp_all add: watchGeometry_ticks_def tick_same_noop)

lemma tick_recording_Some:
  "watchGeometry_tick recording (Some g) (lastEmitted, tr) = (Some g, tr) \<or>
   watchGeometry_tick recording (Some g) (lastEmitted, tr) = (Some g, tr @ [Changed g])"
  by (auto simp: watchGeometry_tick_def recording_def split: option.splits)

lemma ticks_recording_at_most_once:
  "length (filter is_Changed (snd (watchGeometry_ticks recording (replicate n (Some g)) (lastEmitted, tr))))
     \<le> Suc (length (filter is_Changed tr))"
proof (cases n)
  case 0
  then show ?thesis by (simp add: watchGeometry_ticks_def)
next
  case (Suc k)
  have unfold: "watchGeometry_ticks recording (replicate n (Some g)) (lastEmitted, tr) =
        watchGeometry_ticks recording (replicate k (Some g))
          (watchGeometry_tick recording (Some g) (lastEmitted, tr))"
    using Suc by (simp add: watchGeometry_ticks_def)
  from tick_recording_Some [of g lastEmitted tr] show ?thesis
  proof
    assume "watchGeometry_tick recording (Some g) (lastEmitted, tr) = (Some g, tr)"
    then show ?thesis using unfold by (simp add: ticks_same_noop)
  next
    assume "watchGeometry_tick recording (Some g) (lastEmitted, tr) = (Some g, tr @ [Changed g])"
    then show ?thesis using unfold by (simp add: ticks_same_noop)
  qed
qed

text \<open>
  Claim C3. A tick of \<^verbatim>\<open>watchGeometry\<close> whose poll returned a geometry invokes
  \<^verbatim>\<open>onChange\<close> exactly when nothing has been emitted yet or the geometry differs from the
  last emitted one in x, y, width, height or mapped; a tick whose poll returned null invokes
  \<^verbatim>\<open>onMissing\<close> and keeps the last emitted value; any number of consecutive ticks that
  observe the same geometry invoke \<^verbatim>\<open>onChange\<close> at most once.
\<close>

theorem watchGeometry_edge_triggered:
  "watchGeometry_tick recording (Some g) (lastEmitted, tr) =
     (if lastEmitted = None \<or>
         (\<exists>l. lastEmitted = Some l \<and>
            (x g \<noteq> x l \<or> y g \<noteq> y l \<or> width g \<noteq> width l \<or> height g \<noteq> height l
             \<or> mapped g \<noteq> mapped l))
      then (Some g, tr @ [Changed g]) else (lastEmitted, tr))
   \<and> watchGeometry_tick recording None (lastEmitted, tr) = (lastEmitted, tr @ [Missing])
   \<and> length (filter is_Changed
        (snd (watchGeometry_ticks recording (replicate n (Some g)) (lastEmitted, [])))) \<le> 1"
proof (intro conjI)
  show "watchGeometry_tick recording (Some g) (lastEmitted, tr) =
     (if lastEmitted = None \<or>
         (\<exists>l. lastEmitted = Some l \<and>
            (x g \<noteq> x l \<or> y g \<noteq> y l \<or> width g \<noteq> width l \<or> height g \<noteq> height l
             \<or> mapped g \<noteq> mapped l))
      then (Some g, tr @ [Changed g]) else (lastEmitted, tr))"
    by (cases lastEmitted) (auto simp: watchGeometry_tick_def recording_def)
  show "watchGeometry_tick recording None (lastEmitted, tr) = (lastEmitted, tr @ [Missing])"
    by (simp add: watchGeometry_tick_def recording_def)
  show "length (filter is_Changed
        (snd (watchGeometry_ticks recording (replicate n (Some g)) (lastEmitted, [])))) \<le> 1"
    using ticks_recording_at_most_once [of n g lastEmitted "[]"] by simp
qed

theorem watchGeometry_edge_triggered_witness:
  "watchGeometry_tick recording (Some \<lparr> x = 1, y = 2, width = 3, height = 4, mapped = True \<rparr>)
      (Some \<lparr> x = 1, y = 2, width = 3, height = 4, mapped = False \<rparr>, [])
     = (Some \<lparr> x = 1, y = 2, width = 3, height = 4, mapped = True \<rparr>,
        [Changed \<lparr> x = 1, y = 2, width = 3, height = 4, mapped = True \<rparr>])
   \<and> watchGeometry_tick recording None
        (Some \<lparr> x = 1, y = 2, width = 3, height = 4, mapped = False \<rparr>, [])
     = (Some \<lparr> x = 1, y = 2, width = 3, height = 4, mapped = False \<rparr>, [Missing])
   \<and> length (filter is_Changed
        (snd (watchGeometry_ticks recording
           (replicate 3 (Some \<lparr> x = 1, y = 2, width = 3, height = 4, mapped = True \<rparr>))
           (Some \<lparr> x = 1, y = 2, width = 3, height = 4, mapped = False \<rparr>, [])))) \<le> 1"
  using watchGeometry_edge_triggered
    [of "\<lparr> x = 1, y = 2, width = 3, height = 4, mapped = True \<rparr>"
        "Some \<lparr> x = 1, y = 2, width = 3, height = 4, mapped = False \<rparr>" "[]" 3]
  by simp

lemmas win_defs = win_call_def setBounds_def setAlwaysOnTop_def setVisibleOnAllWorkspaces_def
  setIgnoreMouseEvents_def showInactive_def hide_def isVisible_def

section \<open>Visibility\<close>

lemma isVisible_sync:
  "overlay w \<noteq> None \<Longrightarrow> isVisible (syncOverlayVisibility w) = (lastMapped w \<and> lastActive w)"
  by (auto simp: syncOverlayVisibility_def win_defs Let_def split: option.splits)

lemma overlay_sync_None [simp]:
  "(overlay (syncOverlayVisibility w) = None) = (overlay w = None)"
  by (auto simp: syncOverlayVisibility_def win_defs Let_def split: option.splits)

lemma overlay_apply_None [simp]:
  "(overlay (applyOverlayBounds g m w) = None) = (overlay w = None)"
  by (auto simp: applyOverlayBounds_def win_defs Let_def split: option.splits)

lemma flags_sync [simp]:
  "lastMapped (syncOverlayVisibility w) = lastMapped w"
  "lastActive (syncOverlayVisibility w) = lastActive w"
  by (auto simp: syncOverlayVisibility_def win_defs Let_def split: option.splits)

lemma flags_apply [simp]:
  "lastMapped (applyOverlayBounds g m w) = lastMapped w"
  "lastActive (applyOverlayBounds g m w) = lastActive w"
  by (auto simp: applyOverlayBounds_def win_defs Let_def split: option.splits)

lemma visTimer_resume_facts:
  "lastMapped (visTimer_resume windowId a w) = lastMapped w"
  "lastActive (visTimer_resume windowId a w) = (a = Some windowId)"
  "(overlay (visTimer_resume windowId a w) = None) = (overlay w = None)"
  "overlay w \<noteq> None \<Longrightarrow> isVisible (visTimer_resume windowId a w) = (lastMapped w \<and> a = Some windowId)"
  by (simp_all add: visTimer_resume_def isVisible_sync)

lemma attach_onChange_facts:
  "lastMapped (attach_onChange g w) = mapped g"
  "lastActive (attach_onChange g w) = lastActive w"
  "(overlay (attach_onChange g w) = None) = (overlay w = None)"
  "overlay w \<noteq> None \<Longrightarrow> isVisible (attach_onChange g w) = (mapped g \<and> lastActive w)"
  by (simp_all add: attach_onChange_def isVisible_sync Let_def)

text \<open>
  Claim C2. With an overlay window present, once the geometry-change handler (with a geometry
  whose flag is \<open>mapped g\<close>) and the focus-poll handler (with active window \<open>a\<close>, for the
  target \<open>windowId\<close>) have both run, in either order, the overlay is visible exactly when the
  target is mapped and focused; running one of the handlers again with a new flag, the other
  flag held fixed, changes the visibility exactly when the conjunction changes.
\<close>

theorem visibility_truth_table:
  "overlay w \<noteq> None \<Longrightarrow>
     isVisible (visTimer_resume windowId a (attach_onChange g w)) = (mapped g \<and> a = Some windowId)
   \<and> isVisible (attach_onChange g (visTimer_resume windowId a w)) = (mapped g \<and> a = Some windowId)
   \<and> ((isVisible (visTimer_resume windowId a' (visTimer_resume windowId a (attach_onChange g w)))
          \<noteq> isVisible (visTimer_resume windowId a (attach_onChange g w)))
        = ((mapped g \<and> a' = Some windowId) \<noteq> (mapped g \<and> a = Some windowId)))
   \<and> ((isVisible (attach_onChange g' (visTimer_resume windowId a (attach_onChange g w)))
          \<noteq> isVisible (visTimer_resume windowId a (attach_onChange g w)))
        = ((mapped g' \<and> a = Some windowId) \<noteq> (mapped g \<and> a = Some windowId)))"
  by (simp add: visTimer_resume_facts attach_onChange_facts)

theorem visibility_truth_table_witness:
  "overlay enabled_world \<noteq> None
   \<and> isVisible (visTimer_resume 7 (Some 7) (attach_onChange sample_geometry enabled_world))
   \<and> \<not> isVisible (visTimer_resume 7 (Some 9) (attach_onChange sample_geometry enabled_world))
   \<and> \<not> isVisible (attach_onChange (sample_geometry\<lparr> mapped := False \<rparr>)
            (visTimer_resume 7 (Some 7) (attach_onChange sample_geometry enabled_world)))"
proof -
  have ov: "overlay enabled_world \<noteq> None"
    by (simp add: enabled_world_def new_service_def)
  have m: "mapped sample_geometry" by (simp add: sample_geometry_def)
  show ?thesis
    using ov m
      visibility_truth_table [OF ov, of 7 "Some 7" sample_geometry "Some 9"
        "sample_geometry\<lparr> mapped := False \<rparr>"]
      visibility_truth_table [OF ov, of 7 "Some 9" sample_geometry]
    by simp
qed

section \<open>stopAll and restoreOverlayBounds in closed form\<close>

lemma Geometry_eta [simp]:
  "\<lparr> x = x (b::Geometry), y = y b, width = width b, height = height b \<rparr> = b"
  by (cases b) simp

lemma stopAll_eq:
  "stopAll w = w\<lparr> stopWatch := None, stopFollow := None, stopVisibilityWatch := None,
                  intervals := intervals w - owned w \<rparr>"
  by (cases w) (auto simp: stopAll_def clearInterval_def owned_def Let_def split: option.splits)

lemma restoreOverlayBounds_eq:
  "restoreOverlayBounds w =
     (case overlay w of
        None \<Rightarrow> w
      | Some win \<Rightarrow>
          w\<lparr> overlay := Some (win\<lparr> bounds := restore_target w, visible := True, alwaysOnTop := True,
                                  visibleOnAllWorkspaces := True, ignoreMouseEvents := True \<rparr>),
             writes := writes w @ [SetBounds (restore_target w), SetAlwaysOnTop,
                         SetVisibleOnAllWorkspaces, SetIgnoreMouseEvents]
                       @ (if visible win then [] else [ShowInactive]) \<rparr>)"
  by (cases w; cases "overlay w")
     (auto simp: restoreOverlayBounds_def restore_target_def win_defs Let_def split: option.splits)

lemma detach_eq:
  "detach w =
     (True,
      if \<not> isEnabled w then w\<lparr> state := detached_state \<rparr>
      else restoreOverlayBounds
             (w\<lparr> state := detached_state, stopWatch := None, stopFollow := None,
                 stopVisibilityWatch := None, intervals := intervals w - owned w \<rparr>))"
  by (cases w) (simp add: detach_def stopAll_eq)

section \<open>followFocused(false) and detach()\<close>

text \<open>
  Claim C5, as stated, fails for a disabled provider: \<^verbatim>\<open>followFocused(false)\<close> returns
  false there, \<^verbatim>\<open>detach()\<close> returns true.
\<close>

theorem followFocused_false_disabled_counterexample:
  "\<not> isEnabled disabled_world
   \<and> fst (followFocused False disabled_world) = False
   \<and> fst (detach disabled_world) = True"
  by (simp add: followFocused_def detach_def isEnabled_def disabled_world_def new_service_def)

text \<open>
  Claim C5, amended. With the provider enabled, \<^verbatim>\<open>followFocused(false)\<close> and
  \<^verbatim>\<open>detach()\<close> are the same function of the world (same attach state, same overlay
  writes) and both return true. With the provider disabled, \<^verbatim>\<open>followFocused(false)\<close>
  returns false and changes nothing, while \<^verbatim>\<open>detach()\<close> returns true and sets the
  state to Detached.
\<close>

theorem followFocused_false_is_detach:
  "(isEnabled w \<longrightarrow> followFocused False w = detach w \<and> fst (detach w) = True)
   \<and> (\<not> isEnabled w \<longrightarrow>
        followFocused False w = (False, w) \<and> detach w = (True, w\<lparr> state := detached_state \<rparr>))"
  by (simp add: followFocused_def detach_def Let_def)

theorem followFocused_false_is_detach_witness:
  "isEnabled enabled_world
   \<and> followFocused False enabled_world = detach enabled_world
   \<and> fst (detach enabled_world) = True
   \<and> \<not> isEnabled disabled_world
   \<and> followFocused False disabled_world = (False, disabled_world)"
proof -
  have e: "isEnabled enabled_world"
    by (simp add: isEnabled_def enabled_world_def new_service_def)
  have d: "\<not> isEnabled disabled_world"
    by (simp add: isEnabled_def disabled_world_def new_service_def)
  show ?thesis
    using e d followFocused_false_is_detach [of enabled_world]
      followFocused_false_is_detach [of disabled_world]
    by simp
qed

section \<open>detach() twice\<close>

lemma isEnabled_detach [simp]: "isEnabled (snd (detach w)) = isEnabled w"
  by (auto simp: detach_eq restoreOverlayBounds_eq isEnabled_def split: option.splits)

lemma overlay_detach_None [simp]: "(overlay (snd (detach w)) = None) = (overlay w = None)"
  by (auto simp: detach_eq restoreOverlayBounds_eq split: option.splits)

lemma state_detach [simp]: "state (snd (detach w)) = detached_state"
  by (auto simp: detach_eq restoreOverlayBounds_eq split: option.splits)

lemma SetBounds_detach:
  "length (filter is_SetBounds (writes (snd (detach w)))) =
     length (filter is_SetBounds (writes w)) + (if isEnabled w \<and> overlay w \<noteq> None then 1 else 0)"
  by (auto simp: detach_eq restoreOverlayBounds_eq split: option.splits)

lemma detach_detach:
  "snd (detach (snd (detach w))) = (snd (detach w))\<lparr> writes := writes (snd (detach (snd (detach w)))) \<rparr>"
  by (cases w; cases "overlay w")
     (auto simp: detach_eq restoreOverlayBounds_eq owned_def restore_target_def isEnabled_def
           split: option.splits)

text \<open>
  Claim C7, as stated, fails: on an enabled service with an overlay window, two calls of
  \<^verbatim>\<open>detach()\<close> in a row issue two \<^verbatim>\<open>setBounds\<close> writes.
\<close>

theorem detach_twice_counterexample:
  "length (filter is_SetBounds (writes enabled_world)) = 0
   \<and> length (filter is_SetBounds (writes (snd (detach (snd (detach enabled_world)))))) = 2"
  by (simp add: SetBounds_detach)
     (simp add: isEnabled_def enabled_world_def new_service_def)

text \<open>
  Claim C7, amended. Both calls return true; after the first and after the second call the
  state is Detached with no target and no last geometry, and the second call changes nothing in
  the world but the log of overlay writes (the overlay has the same bounds and visibility).
  Each call issues exactly one \<^verbatim>\<open>setBounds\<close> restore write when the provider is enabled
  and an overlay window exists, and none otherwise.
\<close>

theorem detach_twice:
  "fst (detach w) \<and> fst (detach (snd (detach w)))
   \<and> state (snd (detach w)) = \<lparr> mode = Detached, targetId = None, lastGeometry = None \<rparr>
   \<and> state (snd (detach (snd (detach w)))) = state (snd (detach w))
   \<and> snd (detach (snd (detach w)))
       = (snd (detach w))\<lparr> writes := writes (snd (detach (snd (detach w)))) \<rparr>
   \<and> length (filter is_SetBounds (writes (snd (detach w))))
       = length (filter is_SetBounds (writes w)) + (if isEnabled w \<and> overlay w \<noteq> None then 1 else 0)
   \<and> length (filter is_SetBounds (writes (snd (detach (snd (detach w))))))
       = length (filter is_SetBounds (writes (snd (detach w))))
         + (if isEnabled w \<and> overlay w \<noteq> None then 1 else 0)"
proof (intro conjI)
  show "fst (detach w)" by (simp add: detach_def)
  show "fst (detach (snd (detach w)))" by (simp add: detach_def)
  show "state (snd (detach w)) = \<lparr> mode = Detached, targetId = None, lastGeometry = None \<rparr>"
    by (simp add: detached_state_def)
  show "state (snd (detach (snd (detach w)))) = state (snd (detach w))" by simp
  show "snd (detach (snd (detach w)))
       = (snd (detach w))\<lparr> writes := writes (snd (detach (snd (detach w)))) \<rparr>"
    by (rule detach_detach)
  show "length (filter is_SetBounds (writes (snd (detach w))))
       = length (filter is_SetBounds (writes w)) + (if isEnabled w \<and> overlay w \<noteq> None then 1 else 0)"
    by (rule SetBounds_detach)
  show "length (filter is_SetBounds (writes (snd (detach (snd (detach w))))))
       = length (filter is_SetBounds (writes (snd (detach w))))
         + (if isEnabled w \<and> overlay w \<noteq> None then 1 else 0)"
    using SetBounds_detach [of "snd (detach w)"] by simp
qed

theorem detach_twice_witness:
  "isEnabled enabled_world \<and> overlay enabled_world \<noteq> None
   \<and> state (snd (detach (snd (detach enabled_world))))
       = \<lparr> mode = Detached, targetId = None, lastGeometry = None \<rparr>
   \<and> length (filter is_SetBounds (writes (snd (detach enabled_world)))) = 1
   \<and> length (filter is_SetBounds (writes (snd (detach (snd (detach enabled_world)))))) = 2"
proof -
  have e: "isEnabled enabled_world" "overlay enabled_world \<noteq> None" "writes enabled_world = []"
    by (simp_all add: isEnabled_def enabled_world_def new_service_def)
  show ?thesis
    using e detach_twice [of enabled_world]
    by simp
qed

section \<open>What the callbacks leave alone\<close>

lemma ctl_fields:
  assumes "ctl w' = ctl w"
  shows "enabled w' = enabled w" "provider w' = provider w" "primaryDisplay w' = primaryDisplay w"
    "preAttachBounds w' = preAttachBounds w" "mode (state w') = mode (state w)"
    "targetId (state w') = targetId (state w)" "intervals w' = intervals w"
    "stopWatch w' = stopWatch w" "stopFollow w' = stopFollow w"
    "stopVisibilityWatch w' = stopVisibilityWatch w" "nextHandle w' = nextHandle w"
    "inflight w' = inflight w"
  using assms by (simp_all add: ctl_def)

lemma ctl_win_call [simp]: "ctl (win_call f wr w) = ctl w"
  by (simp add: ctl_def win_call_def)

lemma closures_win_call [simp]: "closures (win_call f wr w) = closures w"
  by (simp add: win_call_def)

lemma ctl_applyOverlayBounds [simp]: "ctl (applyOverlayBounds g m w) = ctl w"
  by (simp add: applyOverlayBounds_def setBounds_def setAlwaysOnTop_def
        setVisibleOnAllWorkspaces_def setIgnoreMouseEvents_def showInactive_def hide_def Let_def
      split: option.splits)

lemma closures_applyOverlayBounds [simp]: "closures (applyOverlayBounds g m w) = closures w"
  by (simp add: applyOverlayBounds_def setBounds_def setAlwaysOnTop_def
        setVisibleOnAllWorkspaces_def setIgnoreMouseEvents_def showInactive_def hide_def Let_def
      split: option.splits)

lemma ctl_sync [simp]: "ctl (syncOverlayVisibility w) = ctl w"
  by (simp add: syncOverlayVisibility_def showInactive_def hide_def Let_def split: option.splits)

lemma closures_sync [simp]: "closures (syncOverlayVisibility w) = closures w"
  by (simp add: syncOverlayVisibility_def showInactive_def hide_def Let_def split: option.splits)

lemma ctl_lastMapped_update [simp]: "ctl (w\<lparr> lastMapped := b \<rparr>) = ctl w"
  by (simp add: ctl_def)

lemma ctl_lastActive_update [simp]: "ctl (w\<lparr> lastActive := b \<rparr>) = ctl w"
  by (simp add: ctl_def)

lemma ctl_lastGeometry_update [simp]:
  "ctl (w\<lparr> state := (state w)\<lparr> lastGeometry := lg \<rparr> \<rparr>) = ctl w"
  by (simp add: ctl_def)

lemma ctl_attach_onChange [simp]: "ctl (attach_onChange g w) = ctl w"
  by (simp add: attach_onChange_def Let_def)

lemma closures_attach_onChange [simp]: "closures (attach_onChange g w) = closures w"
  by (simp add: attach_onChange_def Let_def)

lemma ctl_attach_onMissing [simp]: "ctl (attach_onMissing w) = ctl w"
  by (simp add: attach_onMissing_def hide_def Let_def)

lemma closures_attach_onMissing [simp]: "closures (attach_onMissing w) = closures w"
  by (simp add: attach_onMissing_def hide_def Let_def)

lemma ctl_visTimer_resume [simp]: "ctl (visTimer_resume windowId a w) = ctl w"
  by (simp add: visTimer_resume_def)

lemma closures_visTimer_resume [simp]: "closures (visTimer_resume windowId a w) = closures w"
  by (simp add: visTimer_resume_def)

lemma watch_tick_attach_cases:
  "snd (watchGeometry_tick attach_opts g (l, w)) = w
   \<or> snd (watchGeometry_tick attach_opts g (l, w)) = attach_onMissing w
   \<or> (\<exists>g'. g = Some g' \<and> snd (watchGeometry_tick attach_opts g (l, w)) = attach_onChange g' w)"
  by (auto simp: watchGeometry_tick_def attach_opts_def split: option.splits)

lemma ctl_watch_tick [simp]: "ctl (snd (watchGeometry_tick attach_opts g (l, w))) = ctl w"
  using watch_tick_attach_cases [of g l w] by auto

lemma closures_watch_tick [simp]:
  "closures (snd (watchGeometry_tick attach_opts g (l, w))) = closures w"
  using watch_tick_attach_cases [of g l w] by auto

lemma ctl_closures_update [simp]: "ctl (w\<lparr> closures := c \<rparr>) = ctl w"
  by (simp add: ctl_def)

lemma ctl_geometry_resume [simp]: "ctl (geometry_resume h g w) = ctl w"
  by (simp add: geometry_resume_def Let_def split: option.splits closure.splits)

lemma overlay_attach_onMissing_None [simp]:
  "(overlay (attach_onMissing w) = None) = (overlay w = None)"
  by (simp add: attach_onMissing_def win_defs Let_def)

lemma overlay_watch_tick_None [simp]:
  "(overlay (snd (watchGeometry_tick attach_opts g (l, w))) = None) = (overlay w = None)"
  using watch_tick_attach_cases [of g l w] by (auto simp: attach_onChange_facts)

lemma overlay_geometry_resume_None [simp]:
  "(overlay (geometry_resume h g w) = None) = (overlay w = None)"
  by (simp add: geometry_resume_def Let_def split: option.splits closure.splits)

section \<open>attach, followFocused and the follow tick in closed form\<close>

lemma attach_eq:
  "attach i w =
     (if \<not> isEnabled w \<or> overlay w = None then (False, w)
      else (True,
        w\<lparr> preAttachBounds :=
             (if mode (state w) = Detached then map_option bounds (overlay w) else preAttachBounds w),
           state := \<lparr> mode = Attached, targetId = Some i, lastGeometry = None \<rparr>,
           stopWatch := Some (nextHandle w),
           stopFollow := None,
           stopVisibilityWatch := Some (Suc (nextHandle w)),
           closures := (closures w)(nextHandle w \<mapsto> GeometryWatch i None,
                                     Suc (nextHandle w) \<mapsto> VisibilityTimer i),
           nextHandle := Suc (Suc (nextHandle w)),
           intervals := insert (Suc (nextHandle w)) (insert (nextHandle w) (intervals w - owned w)) \<rparr>))"
  by (cases w)
     (auto simp: attach_def stopAll_eq watchGeometry_def setInterval_def owned_def Let_def
           split: option.splits)

lemma followFocused_True_eq:
  "followFocused True w =
     (if \<not> isEnabled w then (False, w)
      else (True,
        w\<lparr> state := \<lparr> mode = Follow, targetId = None, lastGeometry = None \<rparr>,
           stopWatch := None,
           stopFollow := Some (nextHandle w),
           stopVisibilityWatch := None,
           closures := (closures w)(nextHandle w \<mapsto> FollowTick None),
           nextHandle := Suc (nextHandle w),
           intervals := {nextHandle w} \<union> (intervals w - owned w),
           inflight := inflight w @ [nextHandle w] \<rparr>))"
  by (cases w)
     (auto simp: followFocused_def stopAll_eq setInterval_def tick_start_def owned_def Let_def)

lemma timers_ok_ctl:
  assumes "ctl w' = ctl w"
  shows "timers_ok w' = timers_ok w"
proof -
  from assms have "intervals w' = intervals w" "stopWatch w' = stopWatch w"
    "stopFollow w' = stopFollow w" "stopVisibilityWatch w' = stopVisibilityWatch w"
    "enabled w' = enabled w" "provider w' = provider w" "inflight w' = inflight w"
    by (simp_all add: ctl_def)
  then show ?thesis by (simp add: timers_ok_def owned_def isEnabled_def)
qed

lemma timers_ok_attach: "timers_ok w \<Longrightarrow> timers_ok (snd (attach i w))"
  by (auto simp: attach_eq timers_ok_def owned_def isEnabled_def)

lemma followFocused_False_eq:
  "followFocused False w = (if isEnabled w then detach w else (False, w))"
  by (simp add: followFocused_def detach_def Let_def)

lemma timers_ok_detach: "timers_ok w \<Longrightarrow> timers_ok (snd (detach w))"
  by (auto simp: timers_ok_def owned_def isEnabled_def detach_eq restoreOverlayBounds_eq split: option.splits)

lemma timers_ok_followFocused: "timers_ok w \<Longrightarrow> timers_ok (snd (followFocused b w))"
proof (cases b)
  case True
  assume "timers_ok w"
  then show ?thesis using True
    by (auto simp: followFocused_True_eq timers_ok_def owned_def isEnabled_def)
next
  case False
  assume "timers_ok w"
  then show ?thesis using False
    by (simp add: followFocused_False_eq timers_ok_detach)
qed

lemma timers_ok_closures_update [simp]: "timers_ok (w\<lparr> closures := c \<rparr>) = timers_ok w"
  by (rule timers_ok_ctl) simp

lemma timers_ok_mode_update [simp]:
  "timers_ok (w\<lparr> state := (state w)\<lparr> mode := md \<rparr> \<rparr>) = timers_ok w"
  by (simp add: timers_ok_def owned_def isEnabled_def)

lemma timers_ok_geometry_resume [simp]: "timers_ok (geometry_resume h g w) = timers_ok w"
  by (rule timers_ok_ctl) simp

lemma timers_ok_visTimer_resume [simp]: "timers_ok (visTimer_resume windowId a w) = timers_ok w"
  by (rule timers_ok_ctl) simp



lemma timers_ok_inflight_update:
  "timers_ok w \<Longrightarrow> isEnabled w \<or> l = [] \<Longrightarrow> timers_ok (w\<lparr> inflight := l \<rparr>)"
  by (auto simp: timers_ok_def owned_def isEnabled_def)



lemma timers_ok_new_service: "timers_ok (new_service p e isX11 win display)"
  by (simp add: timers_ok_def new_service_def Let_def)

section \<open>Follow tick with no active window\<close>

text \<open>
  Claim C10. A tick of the follow loop whose \<^verbatim>\<open>getActiveWindow()\<close> delivered null or the
  id 0 returns at once: the world is left as it was (only the completed call is no longer in
  flight), so the attach state, the watchers and their intervals are all retained.
\<close>

theorem follow_tick_no_window:
  "tick_resume t None w = w \<and> tick_resume t (Some 0) w = w
   \<and> (i < length (inflight w) \<and> closures w (inflight w ! i) = Some (FollowTick la)
        \<and> (r = None \<or> r = Some 0)
      \<longrightarrow> step (PollDone i (ActiveResult r)) w
            = w\<lparr> inflight := take i (inflight w) @ drop (Suc i) (inflight w) \<rparr>)"
  by (auto simp: tick_resume_def step_def poll_done_def split: option.splits closure.splits)

theorem follow_tick_no_window_witness:
  "step (PollDone 0 (ActiveResult (Some 0))) (snd (followFocused True enabled_world))
     = (snd (followFocused True enabled_world))\<lparr> inflight := [] \<rparr>
   \<and> state (step (PollDone 0 (ActiveResult (Some 0))) (snd (followFocused True enabled_world)))
     = \<lparr> mode = Follow, targetId = None, lastGeometry = None \<rparr>"
proof -
  have e: "isEnabled enabled_world"
    by (simp add: isEnabled_def enabled_world_def new_service_def)
  have i: "inflight (snd (followFocused True enabled_world)) = [0]"
    using e by (simp add: followFocused_True_eq) (simp add: enabled_world_def new_service_def)
  have c: "closures (snd (followFocused True enabled_world)) 0 = Some (FollowTick None)"
    using e by (simp add: followFocused_True_eq) (simp add: enabled_world_def new_service_def)
  have s: "state (snd (followFocused True enabled_world))
             = \<lparr> mode = Follow, targetId = None, lastGeometry = None \<rparr>"
    using e by (simp add: followFocused_True_eq)
  show ?thesis
    using follow_tick_no_window [of 0 "snd (followFocused True enabled_world)" 0 None "Some 0"] i c s
    by simp
qed

section \<open>The snapshot of the overlay bounds\<close>

lemma holding_ctl:
  assumes "ctl w' = ctl w" "(overlay w' = None) = (overlay w = None)"
  shows "holding_snapshot b w' = holding_snapshot b w"
proof -
  from assms(1) have "enabled w' = enabled w" "provider w' = provider w"
    "mode (state w') = mode (state w)" "preAttachBounds w' = preAttachBounds w"
    by (simp_all add: ctl_def)
  then show ?thesis using assms(2) by (simp add: holding_snapshot_def isEnabled_def)
qed

lemma holding_attach: "holding_snapshot b w \<Longrightarrow> holding_snapshot b (snd (attach i w))"
  by (simp add: attach_eq holding_snapshot_def isEnabled_def)

lemma holding_followFocused_True:
  "holding_snapshot b w \<Longrightarrow> holding_snapshot b (snd (followFocused True w))"
  by (simp add: followFocused_True_eq holding_snapshot_def isEnabled_def)

lemma holding_closures_update [simp]:
  "holding_snapshot b (w\<lparr> closures := c \<rparr>) = holding_snapshot b w"
  by (simp add: holding_snapshot_def isEnabled_def)

lemma holding_inflight_update [simp]:
  "holding_snapshot b (w\<lparr> inflight := l \<rparr>) = holding_snapshot b w"
  by (simp add: holding_snapshot_def isEnabled_def)

lemma holding_Follow:
  "holding_snapshot b w \<Longrightarrow> holding_snapshot b (w\<lparr> state := (state w)\<lparr> mode := Follow \<rparr> \<rparr>)"
  by (simp add: holding_snapshot_def isEnabled_def)

lemma holding_tick_resume:
  "holding_snapshot b w \<Longrightarrow> holding_snapshot b (tick_resume t r w)"
  by (simp add: tick_resume_def Let_def holding_attach holding_Follow
      split: option.splits closure.splits)

lemma holding_geometry_resume [simp]:
  "holding_snapshot b (geometry_resume h g w) = holding_snapshot b w"
  by (rule holding_ctl) simp_all

lemma holding_visTimer_resume [simp]:
  "holding_snapshot b (visTimer_resume windowId a w) = holding_snapshot b w"
  by (rule holding_ctl) (simp_all add: visTimer_resume_facts)

lemma holding_poll_done: "holding_snapshot b w \<Longrightarrow> holding_snapshot b (poll_done h r w)"
  by (simp add: poll_done_def holding_tick_resume
      split: option.splits closure.splits poll_result.splits)

lemma holding_step:
  "holding_snapshot b w \<Longrightarrow> \<not> is_release e \<Longrightarrow> holding_snapshot b (step e w)"
proof (cases e)
  case (CallFollowFocused en)
  assume "holding_snapshot b w" "\<not> is_release e"
  then show ?thesis using CallFollowFocused
    by (cases en) (simp_all add: step_def is_release_def holding_followFocused_True)
qed (simp_all add: step_def is_release_def holding_attach holding_poll_done)

lemma holding_run:
  "holding_snapshot b w \<Longrightarrow> \<forall>e\<in>set es. \<not> is_release e \<Longrightarrow> holding_snapshot b (run es w)"
  by (induction es arbitrary: w) (simp_all add: run_def holding_step)

lemma holding_detach:
  "holding_snapshot b w \<Longrightarrow> map_option bounds (overlay (snd (detach w))) = Some b"
  by (auto simp: holding_snapshot_def detach_eq restoreOverlayBounds_eq restore_target_def)

lemma attach_takes_snapshot:
  "isEnabled w \<Longrightarrow> overlay w = Some win \<Longrightarrow> mode (state w) = Detached \<Longrightarrow>
     holding_snapshot (bounds win) (snd (attach i w))"
  by (simp add: attach_eq holding_snapshot_def isEnabled_def)

text \<open>
  Claim C6. \<^verbatim>\<open>attach\<close> called in mode Detached (provider enabled, overlay window
  present) records the overlay's current bounds; \<^verbatim>\<open>attach\<close> called in any other mode
  leaves the recorded bounds as they are; \<^verbatim>\<open>detach\<close> sets the overlay's bounds to the
  recorded ones, or to the primary display's when none are recorded; and whatever happens between
  an attach from Detached and the next release (further attaches, timers, polls), that
  \<^verbatim>\<open>detach\<close> restores the bounds the overlay had before the attach.
\<close>

theorem snapshot_on_detached_edge:
  "(isEnabled w \<and> overlay w = Some win \<and> mode (state w) = Detached
      \<longrightarrow> preAttachBounds (snd (attach i w)) = Some (bounds win))
   \<and> (mode (state w) \<noteq> Detached \<longrightarrow> preAttachBounds (snd (attach i w)) = preAttachBounds w)
   \<and> (isEnabled w \<and> overlay w = Some win
      \<longrightarrow> map_option bounds (overlay (snd (detach w)))
            = Some (case preAttachBounds w of Some b \<Rightarrow> b | None \<Rightarrow> primaryDisplay w))
   \<and> (isEnabled w \<and> overlay w = Some win \<and> mode (state w) = Detached
        \<and> (\<forall>e\<in>set es. e \<noteq> CallDetach \<and> e \<noteq> CallFollowFocused False)
      \<longrightarrow> map_option bounds (overlay (snd (detach (run es (snd (attach i w)))))) = Some (bounds win))"
proof (intro conjI impI)
  assume "isEnabled w \<and> overlay w = Some win \<and> mode (state w) = Detached"
  then show "preAttachBounds (snd (attach i w)) = Some (bounds win)"
    by (simp add: attach_eq)
next
  assume "mode (state w) \<noteq> Detached"
  then show "preAttachBounds (snd (attach i w)) = preAttachBounds w"
    by (simp add: attach_eq)
next
  assume "isEnabled w \<and> overlay w = Some win"
  then show "map_option bounds (overlay (snd (detach w)))
            = Some (case preAttachBounds w of Some b \<Rightarrow> b | None \<Rightarrow> primaryDisplay w)"
    by (simp add: detach_eq restoreOverlayBounds_eq restore_target_def split: option.splits)
next
  assume a: "isEnabled w \<and> overlay w = Some win \<and> mode (state w) = Detached
        \<and> (\<forall>e\<in>set es. e \<noteq> CallDetach \<and> e \<noteq> CallFollowFocused False)"
  then have "holding_snapshot (bounds win) (snd (attach i w))"
    by (simp add: attach_takes_snapshot)
  moreover from a have "\<forall>e\<in>set es. \<not> is_release e"
    by (simp add: is_release_def)
  ultimately have "holding_snapshot (bounds win) (run es (snd (attach i w)))"
    by (rule holding_run)
  then show "map_option bounds (overlay (snd (detach (run es (snd (attach i w)))))) = Some (bounds win)"
    by (rule holding_detach)
qed

theorem snapshot_on_detached_edge_witness:
  "isEnabled enabled_world \<and> overlay enabled_world = Some sample_window
   \<and> mode (state enabled_world) = Detached
   \<and> preAttachBounds (snd (attach 7 enabled_world)) = Some \<lparr> x = 0, y = 0, width = 1920, height = 1080 \<rparr>
   \<and> map_option bounds (overlay (snd (detach (run
        [TimerFire 0, PollDone 0 (GeometryResult (Some sample_geometry)), CallAttach 9]
        (snd (attach 7 enabled_world))))))
      = Some \<lparr> x = 0, y = 0, width = 1920, height = 1080 \<rparr>"
proof -
  have e: "isEnabled enabled_world"
    by (simp add: isEnabled_def enabled_world_def new_service_def)
  have o: "overlay enabled_world = Some sample_window"
    by (simp add: enabled_world_def new_service_def)
  have m: "mode (state enabled_world) = Detached"
    by (simp add: enabled_world_def new_service_def detached_state_def)
  have b: "bounds sample_window = \<lparr> x = 0, y = 0, width = 1920, height = 1080 \<rparr>"
    by (simp add: sample_window_def)
  show ?thesis
    using e o m b
      snapshot_on_detached_edge [of enabled_world sample_window 7
        "[TimerFire 0, PollDone 0 (GeometryResult (Some sample_geometry)), CallAttach 9]"]
    by simp
qed

section \<open>After detach()\<close>





section \<open>Writes of the overlay's bounds\<close>

lemma Geometry_differs:
  "(x (b::Geometry) \<noteq> x g \<or> y b \<noteq> y g \<or> width b \<noteq> width g \<or> height b \<noteq> height g)
     = (b \<noteq> \<lparr> x = x g, y = y g, width = width g, height = height g \<rparr>)"
  by (cases b) auto

lemma bounds_writes_win_call:
  "bounds_writes (win_call f wr w) = bounds_writes w @ (if is_SetBounds wr then [wr] else [])"
  by (simp add: bounds_writes_def win_call_def)

lemma bounds_writes_sync [simp]: "bounds_writes (syncOverlayVisibility w) = bounds_writes w"
  by (simp add: syncOverlayVisibility_def showInactive_def hide_def bounds_writes_win_call Let_def
      split: option.splits)

lemma bounds_writes_applyOverlayBounds:
  "bounds_writes (applyOverlayBounds g m w) =
     bounds_writes w @
       (case overlay w of
          None \<Rightarrow> []
        | Some win \<Rightarrow>
            if m \<and> bounds win \<noteq> \<lparr> x = x g, y = y g, width = width g, height = height g \<rparr>
            then [SetBounds \<lparr> x = x g, y = y g, width = width g, height = height g \<rparr>] else [])"
  by (simp add: applyOverlayBounds_def setBounds_def setAlwaysOnTop_def
        setVisibleOnAllWorkspaces_def setIgnoreMouseEvents_def showInactive_def hide_def
        bounds_writes_win_call Geometry_differs Let_def
      split: option.splits)

lemma bounds_writes_field_updates [simp]:
  "bounds_writes (w\<lparr> lastMapped := m \<rparr>) = bounds_writes w"
  "bounds_writes (w\<lparr> lastActive := a \<rparr>) = bounds_writes w"
  "bounds_writes (w\<lparr> state := s \<rparr>) = bounds_writes w"
  "bounds_writes (w\<lparr> closures := c \<rparr>) = bounds_writes w"
  "bounds_writes (w\<lparr> inflight := l \<rparr>) = bounds_writes w"
  by (simp_all add: bounds_writes_def)

lemma bounds_writes_attach_onChange:
  "bounds_writes (attach_onChange g w) =
     bounds_writes w @
       (case overlay w of
          None \<Rightarrow> []
        | Some win \<Rightarrow>
            if mapped g \<and> bounds win \<noteq> \<lparr> x = x g, y = y g, width = width g, height = height g \<rparr>
            then [SetBounds \<lparr> x = x g, y = y g, width = width g, height = height g \<rparr>] else [])"
  by (simp add: attach_onChange_def bounds_writes_applyOverlayBounds Let_def)

lemma bounds_writes_attach_onMissing [simp]:
  "bounds_writes (attach_onMissing w) = bounds_writes w"
  by (simp add: attach_onMissing_def hide_def bounds_writes_win_call Let_def)

lemma bounds_writes_visTimer_resume [simp]:
  "bounds_writes (visTimer_resume windowId a w) = bounds_writes w"
  by (simp add: visTimer_resume_def)

lemma bounds_writes_attach [simp]: "bounds_writes (snd (attach i w)) = bounds_writes w"
  by (simp add: attach_eq bounds_writes_def)

lemma bounds_writes_followFocused_True [simp]:
  "bounds_writes (snd (followFocused True w)) = bounds_writes w"
  by (simp add: followFocused_True_eq bounds_writes_def)

lemma bounds_writes_tick_resume [simp]: "bounds_writes (tick_resume t r w) = bounds_writes w"
  by (simp add: tick_resume_def Let_def split: option.splits closure.splits)

lemma bounds_writes_geometry_resume:
  "bounds_writes (geometry_resume h r w) = bounds_writes w
   \<or> (\<exists>g win. r = Some g \<and> overlay w = Some win \<and> mapped g
        \<and> bounds win \<noteq> \<lparr> x = x g, y = y g, width = width g, height = height g \<rparr>
        \<and> bounds_writes (geometry_resume h r w)
            = bounds_writes w @ [SetBounds \<lparr> x = x g, y = y g, width = width g, height = height g \<rparr>])"
proof (cases "closures w h")
  case None
  then show ?thesis by (simp add: geometry_resume_def)
next
  case (Some c)
  show ?thesis
  proof (cases c)
    case (GeometryWatch windowId l)
    have eq: "bounds_writes (geometry_resume h r w)
                = bounds_writes (snd (watchGeometry_tick attach_opts r (l, w)))"
      using Some GeometryWatch by (simp add: geometry_resume_def Let_def)
    from watch_tick_attach_cases [of r l w] show ?thesis
    proof (elim disjE exE conjE)
      fix g'
      assume "r = Some g'"
        and "snd (watchGeometry_tick attach_opts r (l, w)) = attach_onChange g' w"
      then show ?thesis unfolding eq
        by (cases "overlay w") (auto simp: bounds_writes_attach_onChange)
    qed (simp_all add: eq)
  qed (simp_all add: Some geometry_resume_def)
qed

lemma bounds_writes_poll_done:
  "bounds_writes (poll_done h r w) = bounds_writes w
   \<or> (\<exists>g win. r = GeometryResult (Some g) \<and> overlay w = Some win \<and> mapped g
        \<and> bounds win \<noteq> \<lparr> x = x g, y = y g, width = width g, height = height g \<rparr>
        \<and> bounds_writes (poll_done h r w)
            = bounds_writes w @ [SetBounds \<lparr> x = x g, y = y g, width = width g, height = height g \<rparr>])"
proof (cases r)
  case (GeometryResult g)
  show ?thesis
  proof (cases "closures w h")
    case None
    then show ?thesis by (simp add: poll_done_def)
  next
    case (Some c)
    then show ?thesis using GeometryResult bounds_writes_geometry_resume [of h g w]
      by (cases c) (simp_all add: poll_done_def)
  qed
next
  case (ActiveResult a)
  then show ?thesis
    by (simp add: poll_done_def split: option.splits closure.splits)
qed

lemma bounds_writes_step:
  assumes "\<not> is_release e"
  shows "bounds_writes (step e w) = bounds_writes w
   \<or> (\<exists>j g win. e = PollDone j (GeometryResult (Some g)) \<and> overlay w = Some win \<and> mapped g
        \<and> bounds win \<noteq> \<lparr> x = x g, y = y g, width = width g, height = height g \<rparr>
        \<and> bounds_writes (step e w)
            = bounds_writes w @ [SetBounds \<lparr> x = x g, y = y g, width = width g, height = height g \<rparr>])"
proof (cases e)
  case (CallFollowFocused en)
  then show ?thesis using assms by (cases en) (simp_all add: step_def is_release_def)
next
  case (PollDone j r)
  show ?thesis
  proof (cases "j < length (inflight w)")
    case True
    then show ?thesis
      using PollDone
        bounds_writes_poll_done [of "inflight w ! j" r
          "w\<lparr> inflight := take j (inflight w) @ drop (Suc j) (inflight w) \<rparr>"]
      by (auto simp: step_def)
  next
    case False
    then show ?thesis using PollDone by (simp add: step_def)
  qed
next
  case CallDetach
  then show ?thesis using assms by (simp add: is_release_def)
qed (simp_all add: step_def)

text \<open>
  Claim C8, as stated, fails: the bounds are written whenever the target is mapped and its
  geometry differs from the overlay's bounds, whether or not the target is focused. Here the
  target has never been seen focused (\<open>lastActive\<close> is false), so the show condition is
  false, and the geometry-change callback writes the bounds all the same (and then hides the
  overlay).
\<close>

theorem bounds_written_unfocused_counterexample:
  "\<not> (mapped sample_geometry \<and> lastActive enabled_world)
   \<and> writes (attach_onChange sample_geometry enabled_world)
     = [SetBounds \<lparr> x = 100, y = 100, width = 800, height = 600 \<rparr>, SetAlwaysOnTop,
        SetVisibleOnAllWorkspaces, SetIgnoreMouseEvents, Hide]"
  by (simp add: enabled_world_def new_service_def sample_window_def sample_geometry_def
        attach_onChange_def applyOverlayBounds_def syncOverlayVisibility_def win_defs Let_def)

text \<open>
  Claim C8, amended. Whenever the show condition (mapped and focused target) is false, the
  overlay is hidden after a geometry-change or focus-poll update. A focus-poll update and a
  missing-geometry callback never write the overlay's bounds. A geometry-change callback
  writes them exactly when an overlay window exists, the polled geometry is mapped and it
  differs from the overlay's current bounds, whatever the focus. Apart from detach and
  followFocused(false), no event writes the bounds but such a geometry change.
\<close>

theorem bounds_written_when_mapped:
  "(overlay w \<noteq> None \<and> \<not> (mapped g \<and> lastActive w) \<longrightarrow> \<not> isVisible (attach_onChange g w))
   \<and> (overlay w \<noteq> None \<and> \<not> (lastMapped w \<and> a = Some windowId)
        \<longrightarrow> \<not> isVisible (visTimer_resume windowId a w))
   \<and> bounds_writes (visTimer_resume windowId a w) = bounds_writes w
   \<and> bounds_writes (attach_onMissing w) = bounds_writes w
   \<and> bounds_writes (attach_onChange g w) =
        bounds_writes w @
          (case overlay w of
             None \<Rightarrow> []
           | Some win \<Rightarrow>
               if mapped g \<and> bounds win \<noteq> \<lparr> x = x g, y = y g, width = width g, height = height g \<rparr>
               then [SetBounds \<lparr> x = x g, y = y g, width = width g, height = height g \<rparr>] else [])
   \<and> (e \<noteq> CallDetach \<and> e \<noteq> CallFollowFocused False \<longrightarrow>
        bounds_writes (step e w) = bounds_writes w
        \<or> (\<exists>j g' win. e = PollDone j (GeometryResult (Some g')) \<and> overlay w = Some win \<and> mapped g'
             \<and> bounds win \<noteq> \<lparr> x = x g', y = y g', width = width g', height = height g' \<rparr>
             \<and> bounds_writes (step e w)
                 = bounds_writes w
                   @ [SetBounds \<lparr> x = x g', y = y g', width = width g', height = height g' \<rparr>]))"
proof (intro conjI impI)
  assume "overlay w \<noteq> None \<and> \<not> (mapped g \<and> lastActive w)"
  then show "\<not> isVisible (attach_onChange g w)"
    by (simp add: attach_onChange_facts)
next
  assume "overlay w \<noteq> None \<and> \<not> (lastMapped w \<and> a = Some windowId)"
  then show "\<not> isVisible (visTimer_resume windowId a w)"
    by (simp add: visTimer_resume_facts)
next
  assume "e \<noteq> CallDetach \<and> e \<noteq> CallFollowFocused False"
  then have "\<not> is_release e" by (simp add: is_release_def)
  then show "bounds_writes (step e w) = bounds_writes w
        \<or> (\<exists>j g' win. e = PollDone j (GeometryResult (Some g')) \<and> overlay w = Some win \<and> mapped g'
             \<and> bounds win \<noteq> \<lparr> x = x g', y = y g', width = width g', height = height g' \<rparr>
             \<and> bounds_writes (step e w)
                 = bounds_writes w
                   @ [SetBounds \<lparr> x = x g', y = y g', width = width g', height = height g' \<rparr>])"
    by (rule bounds_writes_step)
qed (simp_all add: bounds_writes_attach_onChange)

theorem bounds_written_when_mapped_witness:
  "overlay enabled_world \<noteq> None
   \<and> \<not> (mapped sample_geometry \<and> lastActive enabled_world)
   \<and> \<not> isVisible (attach_onChange sample_geometry enabled_world)
   \<and> bounds_writes (attach_onChange sample_geometry enabled_world)
       = [SetBounds \<lparr> x = 100, y = 100, width = 800, height = 600 \<rparr>]
   \<and> bounds_writes (step (CallAttach 7) enabled_world) = []"
proof -
  have ov: "overlay enabled_world = Some sample_window"
    by (simp add: enabled_world_def new_service_def)
  have la: "\<not> lastActive enabled_world"
    by (simp add: enabled_world_def new_service_def)
  have bw: "bounds_writes enabled_world = []"
    by (simp add: bounds_writes_def enabled_world_def new_service_def)
  have g: "mapped sample_geometry"
    "\<lparr> x = x sample_geometry, y = y sample_geometry, width = width sample_geometry,
       height = height sample_geometry \<rparr> = \<lparr> x = 100, y = 100, width = 800, height = 600 \<rparr>"
    by (simp_all add: sample_geometry_def)
  have b: "bounds sample_window \<noteq> \<lparr> x = 100, y = 100, width = 800, height = 600 \<rparr>"
    by (simp add: sample_window_def)
  show ?thesis
    using ov la bw g b
      bounds_written_when_mapped [of enabled_world sample_geometry "Some 7" 7 "CallAttach 7"]
    by simp
qed

section \<open>The invariant of the attach state\<close>

lemma detached_state_simps [simp]:
  "mode detached_state = Detached"
  "targetId detached_state = None"
  "lastGeometry detached_state = None"
  "target_matches_mode detached_state"
  by (simp_all add: detached_state_def target_matches_mode_def)

lemma target_matches_mode_ctl:
  assumes "ctl w' = ctl w"
  shows "target_matches_mode (state w') = target_matches_mode (state w)"
proof -
  from assms have "mode (state w') = mode (state w)" "targetId (state w') = targetId (state w)"
    by (simp_all add: ctl_def)
  then show ?thesis by (simp add: target_matches_mode_def)
qed

lemma tmm_attach: "target_matches_mode (state w) \<Longrightarrow> target_matches_mode (state (snd (attach i w)))"
  by (simp add: attach_eq target_matches_mode_def)

lemma tmm_detach: "target_matches_mode (state (snd (detach w)))"
  by (simp add: target_matches_mode_def detached_state_def)

lemma tmm_followFocused:
  "target_matches_mode (state w) \<Longrightarrow> target_matches_mode (state (snd (followFocused b w)))"
proof (cases b)
  case True
  assume "target_matches_mode (state w)"
  then show ?thesis using True by (simp add: followFocused_True_eq target_matches_mode_def)
next
  case False
  assume "target_matches_mode (state w)"
  then show ?thesis using False tmm_detach [of w] by (simp add: followFocused_False_eq)
qed

lemma tmm_tick_resume:
  "target_matches_mode (state w) \<Longrightarrow> target_matches_mode (state (tick_resume t r w))"
  by (simp add: tick_resume_def Let_def target_matches_mode_def split: option.splits closure.splits)

lemma tmm_geometry_resume [simp]:
  "target_matches_mode (state (geometry_resume h g w)) = target_matches_mode (state w)"
  by (rule target_matches_mode_ctl) simp

lemma tmm_visTimer_resume [simp]:
  "target_matches_mode (state (visTimer_resume windowId a w)) = target_matches_mode (state w)"
  by (rule target_matches_mode_ctl) simp

lemma tmm_poll_done:
  "target_matches_mode (state w) \<Longrightarrow> target_matches_mode (state (poll_done h r w))"
  by (simp add: poll_done_def tmm_tick_resume split: option.splits closure.splits poll_result.splits)

lemma tmm_step:
  "target_matches_mode (state w) \<Longrightarrow> target_matches_mode (state (step e w))"
  by (cases e) (simp_all add: step_def tmm_attach tmm_detach tmm_followFocused tmm_poll_done)

lemma lastGeometry_sync [simp]:
  "lastGeometry (state (syncOverlayVisibility w)) = lastGeometry (state w)"
  by (simp add: syncOverlayVisibility_def win_defs Let_def split: option.splits)

lemma lastGeometry_applyOverlayBounds [simp]:
  "lastGeometry (state (applyOverlayBounds g m w)) = lastGeometry (state w)"
  by (simp add: applyOverlayBounds_def win_defs Let_def split: option.splits)

lemma lastGeometry_attach_onChange:
  "lastGeometry (state (attach_onChange g w))
     = Some \<lparr> x = x g, y = y g, width = width g, height = height g \<rparr>"
  by (simp add: attach_onChange_def Let_def)

lemma lastGeometry_attach_onMissing [simp]:
  "lastGeometry (state (attach_onMissing w)) = lastGeometry (state w)"
  by (simp add: attach_onMissing_def win_defs Let_def)

lemma lastGeometry_visTimer_resume [simp]:
  "lastGeometry (state (visTimer_resume windowId a w)) = lastGeometry (state w)"
  by (simp add: visTimer_resume_def)

lemma lastGeometry_attach:
  "lastGeometry (state (snd (attach i w))) = (if fst (attach i w) then None else lastGeometry (state w))"
  by (simp add: attach_eq)

lemma lastGeometry_detach: "lastGeometry (state (snd (detach w))) = None"
  by (simp add: detached_state_def)

lemma fst_detach: "fst (detach w) = True"
  by (simp add: detach_def)

lemma lastGeometry_followFocused:
  "lastGeometry (state (snd (followFocused b w)))
     = (if fst (followFocused b w) then None else lastGeometry (state w))"
  by (cases b)
     (simp_all add: followFocused_True_eq followFocused_False_eq lastGeometry_detach fst_detach)

lemma lastGeometry_tick_resume:
  "lastGeometry (state (tick_resume t r w)) = lastGeometry (state w)
   \<or> lastGeometry (state (tick_resume t r w)) = None"
  by (simp add: tick_resume_def Let_def attach_eq split: option.splits closure.splits)

lemma lastGeometry_geometry_resume:
  "lastGeometry (state (geometry_resume h r w)) = lastGeometry (state w)
   \<or> (\<exists>g. r = Some g \<and> lastGeometry (state (geometry_resume h r w))
              = Some \<lparr> x = x g, y = y g, width = width g, height = height g \<rparr>)"
proof (cases "closures w h")
  case None
  then show ?thesis by (simp add: geometry_resume_def)
next
  case (Some c)
  show ?thesis
  proof (cases c)
    case (GeometryWatch windowId l)
    have eq: "lastGeometry (state (geometry_resume h r w))
                = lastGeometry (state (snd (watchGeometry_tick attach_opts r (l, w))))"
      using Some GeometryWatch by (simp add: geometry_resume_def Let_def)
    from watch_tick_attach_cases [of r l w] show ?thesis
      unfolding eq by (auto simp: lastGeometry_attach_onChange)
  qed (simp_all add: Some geometry_resume_def)
qed

lemma lastGeometry_poll_done:
  "lastGeometry (state (poll_done h r w)) = lastGeometry (state w)
   \<or> lastGeometry (state (poll_done h r w)) = None
   \<or> (\<exists>g. r = GeometryResult (Some g) \<and> lastGeometry (state (poll_done h r w))
              = Some \<lparr> x = x g, y = y g, width = width g, height = height g \<rparr>)"
proof (cases r)
  case (GeometryResult g)
  show ?thesis
  proof (cases "closures w h")
    case None
    then show ?thesis by (simp add: poll_done_def)
  next
    case (Some c)
    then show ?thesis using GeometryResult lastGeometry_geometry_resume [of h g w]
      by (cases c) (auto simp: poll_done_def)
  qed
next
  case (ActiveResult a)
  show ?thesis
  proof (cases "closures w h")
    case None
    then show ?thesis by (simp add: poll_done_def)
  next
    case (Some c)
    then show ?thesis using ActiveResult lastGeometry_tick_resume [of h a w]
      by (cases c) (auto simp: poll_done_def)
  qed
qed

lemma lastGeometry_step:
  "lastGeometry (state (step e w)) = lastGeometry (state w)
   \<or> lastGeometry (state (step e w)) = None
   \<or> (\<exists>j g. e = PollDone j (GeometryResult (Some g)) \<and> lastGeometry (state (step e w))
              = Some \<lparr> x = x g, y = y g, width = width g, height = height g \<rparr>)"
proof (cases e)
  case (PollDone j r)
  show ?thesis
  proof (cases "j < length (inflight w)")
    case True
    then show ?thesis
      using PollDone
        lastGeometry_poll_done [of "inflight w ! j" r
          "w\<lparr> inflight := take j (inflight w) @ drop (Suc j) (inflight w) \<rparr>"]
      by (auto simp: step_def)
  next
    case False
    then show ?thesis using PollDone by (simp add: step_def)
  qed
qed (simp_all add: step_def lastGeometry_attach lastGeometry_detach lastGeometry_followFocused)

section \<open>The follow loop\<close>

lemma no_follow_transfer:
  assumes "no_follow w" "intervals w' = intervals w" "set (inflight w') \<subseteq> set (inflight w)"
    "\<And>h. is_FollowTick (closures w' h) = is_FollowTick (closures w h)"
  shows "no_follow w'"
  using assms unfolding no_follow_def by auto

lemma is_FollowTick_geometry_resume:
  "is_FollowTick (closures (geometry_resume h g w) h') = is_FollowTick (closures w h')"
  by (cases "closures w h")
     (auto simp: geometry_resume_def Let_def split: closure.splits)

lemma poll_done_not_follow:
  assumes "\<not> is_FollowTick (closures w h)"
  shows "ctl (poll_done h r w) = ctl w"
    and "is_FollowTick (closures (poll_done h r w) h') = is_FollowTick (closures w h')"
proof -
  show "ctl (poll_done h r w) = ctl w"
    using assms
    by (cases "closures w h"; cases r)
       (auto simp: poll_done_def split: closure.splits)
  show "is_FollowTick (closures (poll_done h r w) h') = is_FollowTick (closures w h')"
    using assms
    by (cases "closures w h"; cases r)
       (auto simp: poll_done_def is_FollowTick_geometry_resume split: closure.splits)
qed

lemma timer_event_no_follow:
  assumes nf: "no_follow w" and te: "is_timer_event e"
  shows "no_follow (step e w) \<and> targetId (state (step e w)) = targetId (state w)
         \<and> mode (state (step e w)) = mode (state w) \<and> stopFollow (step e w) = stopFollow w"
proof (cases e)
  case (TimerFire h)
  then show ?thesis using nf by (auto simp: step_def no_follow_def)
next
  case (PollDone j r)
  show ?thesis
  proof (cases "j < length (inflight w)")
    case False
    then show ?thesis using PollDone nf by (simp add: step_def)
  next
    case True
    define w' where "w' = w\<lparr> inflight := take j (inflight w) @ drop (Suc j) (inflight w) \<rparr>"
    define h where "h = inflight w ! j"
    have st: "step e w = poll_done h r w'"
      using PollDone True by (simp add: step_def w'_def h_def)
    have "h \<in> set (inflight w)" using True by (simp add: h_def)
    then have nh: "\<not> is_FollowTick (closures w' h)"
      using nf by (simp add: no_follow_def w'_def)
    have sub: "set (inflight w') \<subseteq> set (inflight w)"
      using set_take_subset [of j "inflight w"] set_drop_subset [of "Suc j" "inflight w"]
      by (auto simp: w'_def)
    note c = ctl_fields(7,12,9,5,6) [OF poll_done_not_follow(1) [OF nh, of r]]
    have "no_follow (poll_done h r w')"
    proof (rule no_follow_transfer [OF nf])
      show "intervals (poll_done h r w') = intervals w" using c(1) by (simp add: w'_def)
      show "set (inflight (poll_done h r w')) \<subseteq> set (inflight w)" using c(2) sub by simp
      show "is_FollowTick (closures (poll_done h r w') h') = is_FollowTick (closures w h')" for h'
        using poll_done_not_follow(2) [OF nh, of r h'] by (simp add: w'_def)
    qed
    then show ?thesis using c by (simp add: st w'_def)
  qed
qed (use te in simp_all)

lemma timer_events_no_follow:
  "no_follow w \<Longrightarrow> \<forall>e\<in>set es. is_timer_event e \<Longrightarrow>
     no_follow (run es w) \<and> targetId (state (run es w)) = targetId (state w)
     \<and> mode (state (run es w)) = mode (state w) \<and> stopFollow (run es w) = stopFollow w"
proof (induction es arbitrary: w)
  case Nil
  then show ?case by (simp add: run_def)
next
  case (Cons e es)
  from Cons.prems have s: "no_follow (step e w) \<and> targetId (state (step e w)) = targetId (state w)
         \<and> mode (state (step e w)) = mode (state w) \<and> stopFollow (step e w) = stopFollow w"
    by (intro timer_event_no_follow) simp_all
  from Cons.prems have "\<forall>e\<in>set es. is_timer_event e" by simp
  with s Cons.IH [of "step e w"] have
    "no_follow (run es (step e w)) \<and> targetId (state (run es (step e w))) = targetId (state (step e w))
     \<and> mode (state (run es (step e w))) = mode (state (step e w))
     \<and> stopFollow (run es (step e w)) = stopFollow (step e w)"
    by blast
  moreover have "run (e # es) w = run es (step e w)" by (simp add: run_def)
  ultimately show ?case using s by simp
qed

lemma follow_first_attach:
  assumes "isEnabled w" "overlay w \<noteq> None" "timers_ok w" "inflight w = []" "A \<noteq> 0"
  shows "no_follow (run [CallFollowFocused True, PollDone 0 (ActiveResult (Some A))] w)"
    and "targetId (state (run [CallFollowFocused True, PollDone 0 (ActiveResult (Some A))] w)) = Some A"
    and "mode (state (run [CallFollowFocused True, PollDone 0 (ActiveResult (Some A))] w)) = Follow"
    and "stopFollow (run [CallFollowFocused True, PollDone 0 (ActiveResult (Some A))] w) = None"
proof -
  from assms(3) have d: "intervals w - (set_option (stopWatch w) \<union> set_option (stopFollow w)
      \<union> set_option (stopVisibilityWatch w)) = {}"
    by (auto simp: timers_ok_def owned_def)
  have en: "enabled w" "provider w" using assms(1) by (simp_all add: isEnabled_def)
  have r: "run [CallFollowFocused True, PollDone 0 (ActiveResult (Some A))] w
      = (snd (attach A ((snd (followFocused True w))
            \<lparr> inflight := [],
              closures := (closures (snd (followFocused True w)))(nextHandle w \<mapsto> FollowTick (Some A)) \<rparr>)))
          \<lparr> state := (state (snd (attach A ((snd (followFocused True w))
            \<lparr> inflight := [],
              closures := (closures (snd (followFocused True w)))(nextHandle w \<mapsto> FollowTick (Some A)) \<rparr>))))
              \<lparr> mode := Follow \<rparr> \<rparr>"
    using assms(1,4,5)
    by (simp add: run_def step_def followFocused_True_eq poll_done_def tick_resume_def Let_def)
  show "no_follow (run [CallFollowFocused True, PollDone 0 (ActiveResult (Some A))] w)"
    unfolding r using assms(1,2,4) en d
    by (auto simp: attach_eq followFocused_True_eq isEnabled_def owned_def no_follow_def)
  show "targetId (state (run [CallFollowFocused True, PollDone 0 (ActiveResult (Some A))] w)) = Some A"
    unfolding r using assms(1,2) en
    by (simp add: attach_eq followFocused_True_eq isEnabled_def)
  show "mode (state (run [CallFollowFocused True, PollDone 0 (ActiveResult (Some A))] w)) = Follow"
    unfolding r by simp
  show "stopFollow (run [CallFollowFocused True, PollDone 0 (ActiveResult (Some A))] w) = None"
    unfolding r using assms(1,2) en
    by (simp add: attach_eq followFocused_True_eq isEnabled_def)
qed

lemma run_append: "run (es @ es') w = run es' (run es w)"
  by (simp add: run_def)

text \<open>
  Claim C4 does not hold of the code. \<^verbatim>\<open>followFocused(true)\<close> schedules the follow
  interval; the first tick that sees an active window \<open>A\<close> calls \<^verbatim>\<open>attach(A)\<close>, whose
  \<^verbatim>\<open>stopAll()\<close> clears that very interval. From then on no tick of the follow loop is
  scheduled or in flight: whatever timers fire and whatever the polls return afterwards (the
  active window may be any \<open>B\<close>), the target stays \<open>A\<close>.
\<close>

theorem follow_loop_stops_after_first_attach:
  "isEnabled w \<and> overlay w \<noteq> None \<and> timers_ok w \<and> inflight w = [] \<and> A \<noteq> 0
     \<and> (\<forall>e\<in>set es. is_timer_event e)
   \<longrightarrow> targetId (state (run ([CallFollowFocused True, PollDone 0 (ActiveResult (Some A))] @ es) w)) = Some A
       \<and> mode (state (run ([CallFollowFocused True, PollDone 0 (ActiveResult (Some A))] @ es) w)) = Follow
       \<and> stopFollow (run ([CallFollowFocused True, PollDone 0 (ActiveResult (Some A))] @ es) w) = None
       \<and> no_follow (run ([CallFollowFocused True, PollDone 0 (ActiveResult (Some A))] @ es) w)"
proof
  assume a: "isEnabled w \<and> overlay w \<noteq> None \<and> timers_ok w \<and> inflight w = [] \<and> A \<noteq> 0
     \<and> (\<forall>e\<in>set es. is_timer_event e)"
  then have f: "isEnabled w" "overlay w \<noteq> None" "timers_ok w" "inflight w = []" "A \<noteq> 0"
    and t: "\<forall>e\<in>set es. is_timer_event e"
    by simp_all
  note first = follow_first_attach [OF f]
  have ra: "run ([CallFollowFocused True, PollDone 0 (ActiveResult (Some A))] @ es) w
              = run es (run [CallFollowFocused True, PollDone 0 (ActiveResult (Some A))] w)"
    by (rule run_append)
  from timer_events_no_follow [OF first(1) t] first(2,3,4)
  show "targetId (state (run ([CallFollowFocused True, PollDone 0 (ActiveResult (Some A))] @ es) w)) = Some A
       \<and> mode (state (run ([CallFollowFocused True, PollDone 0 (ActiveResult (Some A))] @ es) w)) = Follow
       \<and> stopFollow (run ([CallFollowFocused True, PollDone 0 (ActiveResult (Some A))] @ es) w) = None
       \<and> no_follow (run ([CallFollowFocused True, PollDone 0 (ActiveResult (Some A))] @ es) w)"
    unfolding ra by simp
qed

theorem follow_loop_stops_after_first_attach_witness:
  "targetId (state (run ([CallFollowFocused True, PollDone 0 (ActiveResult (Some 7))]
       @ [TimerFire 0, TimerFire 1, TimerFire 2, PollDone 1 (ActiveResult (Some 9)),
          PollDone 0 (GeometryResult (Some sample_geometry)), TimerFire 0]) enabled_world)) = Some 7
   \<and> mode (state (run ([CallFollowFocused True, PollDone 0 (ActiveResult (Some 7))]
       @ [TimerFire 0, TimerFire 1, TimerFire 2, PollDone 1 (ActiveResult (Some 9)),
          PollDone 0 (GeometryResult (Some sample_geometry)), TimerFire 0]) enabled_world)) = Follow"
proof -
  have e: "isEnabled enabled_world" "overlay enabled_world \<noteq> None" "inflight enabled_world = []"
    by (simp_all add: isEnabled_def enabled_world_def new_service_def)
  have t: "timers_ok enabled_world"
    by (simp add: enabled_world_def timers_ok_new_service)
  show ?thesis
    using e t
      follow_loop_stops_after_first_attach [of enabled_world 7
        "[TimerFire 0, TimerFire 1, TimerFire 2, PollDone 1 (ActiveResult (Some 9)),
          PollDone 0 (GeometryResult (Some sample_geometry)), TimerFire 0]"]
    by simp
qed

section \<open>The full invariant when no stale poll is in flight\<close>

lemma watcher_has_emitted_cong:
  "stopWatch w' = stopWatch w \<Longrightarrow> closures w' = closures w \<Longrightarrow>
     watcher_has_emitted w' = watcher_has_emitted w"
  by (cases "stopWatch w") (simp_all add: watcher_has_emitted_def)

lemma inv_inflight_update [simp]:
  "AttachState_invariant (w\<lparr> inflight := l \<rparr>) = AttachState_invariant w"
proof -
  have "watcher_has_emitted (w\<lparr> inflight := l \<rparr>) = watcher_has_emitted w"
    by (rule watcher_has_emitted_cong) simp_all
  then show ?thesis by (simp add: AttachState_invariant_def)
qed

lemma engine_ok_drop_inflight:
  assumes "engine_ok w" "set l \<subseteq> set (inflight w)"
  shows "engine_ok (w\<lparr> inflight := l \<rparr>)"
proof -
  have "timers_ok (w\<lparr> inflight := l \<rparr>)"
    using assms by (auto simp: engine_ok_def timers_ok_def owned_def isEnabled_def)
  moreover have "handles_fresh (w\<lparr> inflight := l \<rparr>)"
    using assms by (auto simp: engine_ok_def handles_fresh_def)
  moreover have "polls_current (w\<lparr> inflight := l \<rparr>)"
    using assms by (auto simp: engine_ok_def polls_current_def)
  ultimately show ?thesis by (simp add: engine_ok_def)
qed

lemma remove_nth_subset: "set (take j l @ drop (Suc j) l) \<subseteq> set l"
  using set_take_subset [of j l] set_drop_subset [of "Suc j" l] by auto

lemma no_geometry_inflight_drop:
  "no_geometry_inflight w \<Longrightarrow> set l \<subseteq> set (inflight w) \<Longrightarrow> no_geometry_inflight (w\<lparr> inflight := l \<rparr>)"
  by (auto simp: no_geometry_inflight_def)

text \<open>Timer ticks.\<close>

lemma full_inv_TimerFire:
  assumes "AttachState_invariant w" "engine_ok w"
  shows "AttachState_invariant (step (TimerFire h) w) \<and> engine_ok (step (TimerFire h) w)"
proof (cases "h \<in> intervals w")
  case False
  then show ?thesis using assms by (simp add: step_def)
next
  case True
  have "isEnabled w" using True assms(2) by (auto simp: engine_ok_def timers_ok_def)
  then have "timers_ok (w\<lparr> inflight := inflight w @ [h] \<rparr>)"
    using assms(2) by (simp add: engine_ok_def timers_ok_inflight_update)
  moreover have "handles_fresh (w\<lparr> inflight := inflight w @ [h] \<rparr>)"
    using True assms(2) by (auto simp: engine_ok_def handles_fresh_def)
  moreover have "polls_current (w\<lparr> inflight := inflight w @ [h] \<rparr>)"
    using True assms(2) by (auto simp: engine_ok_def polls_current_def)
  ultimately show ?thesis using True assms(1) by (simp add: step_def engine_ok_def)
qed

text \<open>The callbacks of the watchers.\<close>

lemma engine_ok_ctl:
  assumes "ctl w' = ctl w" "\<And>h. is_GeometryWatch (closures w' h) = is_GeometryWatch (closures w h)"
  shows "engine_ok w' = engine_ok w"
proof -
  note f = ctl_fields(7,12,8,11) [OF assms(1)]
  have "timers_ok w' = timers_ok w" using assms(1) by (rule timers_ok_ctl)
  then show ?thesis using f assms(2) by (simp add: engine_ok_def handles_fresh_def polls_current_def)
qed

lemma inv_visTimer_resume [simp]:
  "AttachState_invariant (visTimer_resume windowId a w) = AttachState_invariant w"
proof -
  have "stopWatch (visTimer_resume windowId a w) = stopWatch w"
    by (rule ctl_fields(8)) simp
  then have "watcher_has_emitted (visTimer_resume windowId a w) = watcher_has_emitted w"
    by (rule watcher_has_emitted_cong) simp
  moreover have "target_matches_mode (state (visTimer_resume windowId a w))
                   = target_matches_mode (state w)"
    by simp
  ultimately show ?thesis by (simp add: AttachState_invariant_def)
qed

lemma engine_ok_visTimer_resume [simp]:
  "engine_ok (visTimer_resume windowId a w) = engine_ok w"
  by (rule engine_ok_ctl) simp_all

lemma is_GeometryWatch_geometry_resume:
  "is_GeometryWatch (closures (geometry_resume h g w) h') = is_GeometryWatch (closures w h')"
  by (cases "closures w h")
     (auto simp: geometry_resume_def Let_def split: closure.splits)

lemma engine_ok_geometry_resume [simp]:
  "engine_ok (geometry_resume h g w) = engine_ok w"
  by (rule engine_ok_ctl) (simp_all add: is_GeometryWatch_geometry_resume)

lemma watch_tick_last:
  "(fst (watchGeometry_tick attach_opts g (l, w)) = l
      \<and> lastGeometry (state (snd (watchGeometry_tick attach_opts g (l, w)))) = lastGeometry (state w))
   \<or> (\<exists>g'. fst (watchGeometry_tick attach_opts g (l, w)) = Some g')"
  by (auto simp: watchGeometry_tick_def attach_opts_def split: option.splits)

lemma inv_geometry_resume:
  assumes "AttachState_invariant w" "stopWatch w = Some h"
  shows "AttachState_invariant (geometry_resume h g w)"
proof (cases "closures w h")
  case None
  then show ?thesis using assms by (simp add: geometry_resume_def)
next
  case (Some c)
  show ?thesis
  proof (cases c)
    case (GeometryWatch windowId l)
    define ls where "ls = watchGeometry_tick attach_opts g (l, w)"
    have gr: "geometry_resume h g w
                = (snd ls)\<lparr> closures := (closures w)(h \<mapsto> GeometryWatch windowId (fst ls)) \<rparr>"
      using Some GeometryWatch by (simp add: geometry_resume_def Let_def ls_def)
    have "stopWatch (snd ls) = stopWatch w"
      unfolding ls_def by (rule ctl_fields(8)) simp
    then have sw: "stopWatch (snd ls) = Some h"
      using assms(2) by simp
    have tm: "target_matches_mode (state (geometry_resume h g w))"
      using assms(1) by (simp add: AttachState_invariant_def)
    from watch_tick_last [of g l w] show ?thesis
    proof
      assume "fst (watchGeometry_tick attach_opts g (l, w)) = l
        \<and> lastGeometry (state (snd (watchGeometry_tick attach_opts g (l, w)))) = lastGeometry (state w)"
      then have same: "fst ls = l" "lastGeometry (state (snd ls)) = lastGeometry (state w)"
        by (simp_all add: ls_def)
      have "(closures w)(h \<mapsto> GeometryWatch windowId l) = closures w"
        using Some GeometryWatch by (auto simp: fun_upd_def)
      then have "watcher_has_emitted (geometry_resume h g w) = watcher_has_emitted w"
        using sw assms(2) same by (simp add: gr watcher_has_emitted_def)
      then show ?thesis using tm assms(1) same
        by (simp add: AttachState_invariant_def gr)
    next
      assume "\<exists>g'. fst (watchGeometry_tick attach_opts g (l, w)) = Some g'"
      then obtain g' where "fst ls = Some g'" by (auto simp: ls_def)
      then have "watcher_has_emitted (geometry_resume h g w)"
        using sw by (simp add: gr watcher_has_emitted_def)
      then show ?thesis using tm by (simp add: AttachState_invariant_def)
    qed
  qed (use assms Some in \<open>simp_all add: geometry_resume_def\<close>)
qed

text \<open>The operations that replace the state.\<close>

lemma inv_closures_FollowTick:
  assumes "is_FollowTick (closures w t)"
  shows "AttachState_invariant (w\<lparr> closures := (closures w)(t \<mapsto> FollowTick la) \<rparr>) = AttachState_invariant w"
    and "is_GeometryWatch (((closures w)(t \<mapsto> FollowTick la)) h) = is_GeometryWatch (closures w h)"
proof -
  from assms obtain la' where c: "closures w t = Some (FollowTick la')"
    by (cases "closures w t" rule: is_FollowTick.cases) simp_all
  show "is_GeometryWatch (((closures w)(t \<mapsto> FollowTick la)) h) = is_GeometryWatch (closures w h)"
    using c by simp
  show "AttachState_invariant (w\<lparr> closures := (closures w)(t \<mapsto> FollowTick la) \<rparr>) = AttachState_invariant w"
    using c by (auto simp: AttachState_invariant_def watcher_has_emitted_def split: option.splits)
qed

lemma full_inv_attach:
  assumes "AttachState_invariant w" "engine_ok w" "no_geometry_inflight w"
  shows "AttachState_invariant (snd (attach i w)) \<and> engine_ok (snd (attach i w))"
proof (cases "\<not> isEnabled w \<or> overlay w = None")
  case True
  then show ?thesis using assms by (auto simp: attach_eq)
next
  case False
  from assms(2) have d: "intervals w - owned w = {}"
    by (auto simp: engine_ok_def timers_ok_def)
  from assms(2) have fresh: "\<forall>h \<in> set (inflight w). h < nextHandle w"
    by (simp add: engine_ok_def handles_fresh_def)
  from False have en: "isEnabled w" and ov: "overlay w \<noteq> None" by simp_all
  have inv: "AttachState_invariant (snd (attach i w))"
    by (simp add: attach_eq en ov AttachState_invariant_def target_matches_mode_def)
  have t: "timers_ok (snd (attach i w))"
    using assms(2) by (simp add: engine_ok_def timers_ok_attach)
  have hf: "handles_fresh (snd (attach i w))"
    using fresh by (auto simp: attach_eq en ov d handles_fresh_def)
  have pc: "polls_current (snd (attach i w))"
    using fresh assms(3)
    by (auto simp: attach_eq en ov d polls_current_def no_geometry_inflight_def)
  show ?thesis using inv t hf pc by (simp add: engine_ok_def)
qed

lemma full_inv_detach:
  assumes "AttachState_invariant w" "engine_ok w" "no_geometry_inflight w"
  shows "AttachState_invariant (snd (detach w)) \<and> engine_ok (snd (detach w))"
proof -
  have inv: "AttachState_invariant (snd (detach w))"
    by (simp add: AttachState_invariant_def)
  have t: "timers_ok (snd (detach w))"
    using assms(2) by (simp add: engine_ok_def timers_ok_detach)
  from assms(2) have d: "intervals w - owned w = {}"
    by (auto simp: engine_ok_def timers_ok_def)
  have hf: "handles_fresh (snd (detach w))"
    using assms(2) d
    by (auto simp: engine_ok_def handles_fresh_def detach_eq restoreOverlayBounds_eq
        split: option.splits)
  have pc: "polls_current (snd (detach w))"
    using assms(2,3) d
    by (auto simp: engine_ok_def polls_current_def no_geometry_inflight_def detach_eq
          restoreOverlayBounds_eq split: option.splits)
  show ?thesis using inv t hf pc by (simp add: engine_ok_def)
qed

lemma full_inv_followFocused:
  assumes "AttachState_invariant w" "engine_ok w" "no_geometry_inflight w"
  shows "AttachState_invariant (snd (followFocused b w)) \<and> engine_ok (snd (followFocused b w))"
proof (cases b)
  case False
  then show ?thesis using assms full_inv_detach [OF assms]
    by (simp add: followFocused_False_eq)
next
  case True
  show ?thesis
  proof (cases "isEnabled w")
    case False
    then show ?thesis using True assms by (simp add: followFocused_True_eq)
  next
    case en: True
    from assms(2) have d: "intervals w - owned w = {}"
      by (auto simp: engine_ok_def timers_ok_def)
    from assms(2) have fresh: "\<forall>h \<in> set (inflight w). h < nextHandle w"
      by (simp add: engine_ok_def handles_fresh_def)
    have inv: "AttachState_invariant (snd (followFocused True w))"
      by (simp add: followFocused_True_eq en AttachState_invariant_def target_matches_mode_def)
    have t: "timers_ok (snd (followFocused True w))"
      using assms(2) by (simp add: engine_ok_def timers_ok_followFocused)
    have hf: "handles_fresh (snd (followFocused True w))"
      using fresh by (auto simp: followFocused_True_eq en d handles_fresh_def)
    have pc: "polls_current (snd (followFocused True w))"
      using fresh assms(3)
      by (auto simp: followFocused_True_eq en d polls_current_def no_geometry_inflight_def)
    show ?thesis using True inv t hf pc by (simp add: engine_ok_def)
  qed
qed

lemma inv_mode_Follow:
  "AttachState_invariant w \<Longrightarrow> AttachState_invariant (w\<lparr> state := (state w)\<lparr> mode := Follow \<rparr> \<rparr>)"
  by (cases "stopWatch w")
     (simp_all add: AttachState_invariant_def target_matches_mode_def watcher_has_emitted_def)

lemma engine_ok_mode_update [simp]:
  "engine_ok (w\<lparr> state := s \<rparr>) = engine_ok w"
  by (simp add: engine_ok_def timers_ok_def owned_def isEnabled_def handles_fresh_def polls_current_def)

lemma full_inv_tick_resume:
  assumes "AttachState_invariant w" "engine_ok w" "no_geometry_inflight w"
    "is_FollowTick (closures w t)"
  shows "AttachState_invariant (tick_resume t r w) \<and> engine_ok (tick_resume t r w)"
proof -
  from assms(4) obtain la where c: "closures w t = Some (FollowTick la)"
    by (cases "closures w t" rule: is_FollowTick.cases) simp_all
  show ?thesis
  proof (cases "\<exists>i. r = Some i \<and> i \<noteq> 0 \<and> Some i \<noteq> la")
    case False
    then have "tick_resume t r w = w"
      using c by (cases r) (auto simp: tick_resume_def)
    then show ?thesis using assms by simp
  next
    case True
    then obtain i where i: "r = Some i" "i \<noteq> 0" "Some i \<noteq> la" by auto
    define w1 where "w1 = w\<lparr> closures := (closures w)(t \<mapsto> FollowTick (Some i)) \<rparr>"
    have tr: "tick_resume t r w = (snd (attach i w1))\<lparr> state := (state (snd (attach i w1)))\<lparr> mode := Follow \<rparr> \<rparr>"
      using c i by (simp add: tick_resume_def Let_def w1_def)
    have 1: "AttachState_invariant w1"
      using assms(1) inv_closures_FollowTick(1) [OF assms(4)] by (simp add: w1_def)
    have g: "is_GeometryWatch (closures w1 h) = is_GeometryWatch (closures w h)" for h
      using inv_closures_FollowTick(2) [OF assms(4)] by (simp add: w1_def)
    have 2: "engine_ok w1"
      using assms(2) g
      by (simp add: engine_ok_def timers_ok_def owned_def isEnabled_def handles_fresh_def
            polls_current_def) (simp add: w1_def)
    have 3: "no_geometry_inflight w1"
      using assms(3) g by (simp add: no_geometry_inflight_def) (simp add: w1_def)
    from full_inv_attach [OF 1 2 3, of i] show ?thesis
      unfolding tr by (simp add: inv_mode_Follow)
  qed
qed

lemma full_inv_step:
  assumes "AttachState_invariant w" "engine_ok w" "replaces_state e w \<longrightarrow> no_geometry_inflight w"
  shows "AttachState_invariant (step e w) \<and> engine_ok (step e w)"
proof (cases e)
  case (CallAttach i)
  then show ?thesis using assms full_inv_attach [of w i]
    by (simp add: step_def replaces_state_def)
next
  case CallDetach
  then show ?thesis using assms full_inv_detach [of w]
    by (simp add: step_def replaces_state_def)
next
  case (CallFollowFocused b)
  then show ?thesis using assms full_inv_followFocused [of w b]
    by (simp add: step_def replaces_state_def)
next
  case (TimerFire h)
  then show ?thesis using assms full_inv_TimerFire [of w h] by simp
next
  case (PollDone j r)
  show ?thesis
  proof (cases "j < length (inflight w)")
    case False
    then show ?thesis using PollDone assms by (simp add: step_def)
  next
    case True
    define w' where "w' = w\<lparr> inflight := take j (inflight w) @ drop (Suc j) (inflight w) \<rparr>"
    define h where "h = inflight w ! j"
    have st: "step e w = poll_done h r w'"
      using PollDone True by (simp add: step_def w'_def h_def)
    have hin: "h \<in> set (inflight w)" using True by (simp add: h_def)
    have inv': "AttachState_invariant w'" using assms(1) by (simp add: w'_def)
    have ok': "engine_ok w'"
      using assms(2) unfolding w'_def by (rule engine_ok_drop_inflight) (rule remove_nth_subset)
    have cl: "closures w' = closures w" "stopWatch w' = stopWatch w" by (simp_all add: w'_def)
    show ?thesis
    proof (cases "closures w h")
      case None
      then show ?thesis using inv' ok' cl by (simp add: st poll_done_def)
    next
      case (Some c)
      show ?thesis
      proof (cases c)
        case (GeometryWatch windowId l)
        have "stopWatch w = Some h"
          using assms(2) hin Some GeometryWatch by (auto simp: engine_ok_def polls_current_def)
        then have "AttachState_invariant (geometry_resume h g w')" for g
          using inv' cl by (intro inv_geometry_resume) simp_all
        then show ?thesis using Some GeometryWatch inv' ok' cl
          by (cases r) (simp_all add: st poll_done_def)
      next
        case (VisibilityTimer windowId)
        then show ?thesis using Some inv' ok' cl
          by (cases r) (simp_all add: st poll_done_def)
      next
        case (FollowTick la)
        have "replaces_state e w"
          using PollDone True Some FollowTick by (simp add: replaces_state_def h_def)
        then have "no_geometry_inflight w" using assms(3) by simp
        then have ng: "no_geometry_inflight w'"
          unfolding w'_def by (rule no_geometry_inflight_drop) (rule remove_nth_subset)
        have "is_FollowTick (closures w' h)" using Some FollowTick cl by simp
        from full_inv_tick_resume [OF inv' ok' ng this]
        show ?thesis using Some FollowTick cl
          by (cases r) (simp_all add: st poll_done_def inv' ok')
      qed
    qed
  qed
qed

lemma full_inv_new_service:
  "AttachState_invariant (new_service p e isX11 win display)
   \<and> engine_ok (new_service p e isX11 win display)"
  by (simp add: AttachState_invariant_def engine_ok_def timers_ok_new_service)
     (simp add: new_service_def handles_fresh_def polls_current_def Let_def)

text \<open>
  Claim C9, as stated, fails: the callback of a geometry poll that was in flight when
  \<^verbatim>\<open>detach()\<close> was called sets \<^verbatim>\<open>lastGeometry\<close> in mode Detached, where there is no
  current attach and no watcher.
\<close>

theorem stale_poll_breaks_invariant_counterexample:
  "AttachState_invariant (run [CallAttach 7, TimerFire 0, CallDetach] enabled_world)
   \<and> state (run [CallAttach 7, TimerFire 0, CallDetach,
                  PollDone 0 (GeometryResult (Some sample_geometry))] enabled_world)
     = \<lparr> mode = Detached, targetId = None,
         lastGeometry = Some \<lparr> x = 100, y = 100, width = 800, height = 600 \<rparr> \<rparr>
   \<and> \<not> AttachState_invariant (run [CallAttach 7, TimerFire 0, CallDetach,
                  PollDone 0 (GeometryResult (Some sample_geometry))] enabled_world)"
  by (simp add: AttachState_invariant_def target_matches_mode_def watcher_has_emitted_def
        run_def step_def attach_eq detach_eq restoreOverlayBounds_eq restore_target_def
        owned_def isEnabled_def enabled_world_def new_service_def sample_window_def
        sample_geometry_def detached_state_def poll_done_def geometry_resume_def
        watchGeometry_tick_def attach_opts_def attach_onChange_def applyOverlayBounds_def
        syncOverlayVisibility_def win_defs Let_def)

text \<open>
  Claim C9, amended. Every event (a call of attach, followFocused or detach, a timer tick,
  a watcher callback) keeps the first part of the invariant: no target in mode Detached, a
  target in mode Attached. Every call of attach, followFocused and detach that returns true
  leaves \<^verbatim>\<open>lastGeometry\<close> null, and an event makes it a new non-null value only as the
  geometry-change callback of a successful geometry poll, with that poll's rectangle. As long
  as no geometry poll is in flight whenever the state is replaced (by a call of the host or by
  a follow tick), the whole invariant is kept: \<^verbatim>\<open>lastGeometry\<close> is non-null only when the
  geometry watcher of the current attach has had a successful poll. A geometry poll that is in
  flight while the state is replaced is not covered: its callback still sets
  \<^verbatim>\<open>lastGeometry\<close>.
\<close>

theorem AttachState_preserved:
  "(target_matches_mode (state w) \<longrightarrow> target_matches_mode (state (step e w)))
   \<and> (fst (attach i w) \<longrightarrow> lastGeometry (state (snd (attach i w))) = None)
   \<and> (fst (followFocused b w) \<longrightarrow> lastGeometry (state (snd (followFocused b w))) = None)
   \<and> fst (detach w) \<and> lastGeometry (state (snd (detach w))) = None
   \<and> (lastGeometry (state (step e w)) \<noteq> None
        \<and> lastGeometry (state (step e w)) \<noteq> lastGeometry (state w)
      \<longrightarrow> (\<exists>j g. e = PollDone j (GeometryResult (Some g))
                 \<and> lastGeometry (state (step e w))
                     = Some \<lparr> x = x g, y = y g, width = width g, height = height g \<rparr>))
   \<and> (AttachState_invariant w \<and> engine_ok w \<and> (replaces_state e w \<longrightarrow> no_geometry_inflight w)
      \<longrightarrow> AttachState_invariant (step e w) \<and> engine_ok (step e w))"
proof (intro conjI impI)
  assume "target_matches_mode (state w)"
  then show "target_matches_mode (state (step e w))" by (rule tmm_step)
next
  assume "fst (attach i w)"
  then show "lastGeometry (state (snd (attach i w))) = None" by (simp add: lastGeometry_attach)
next
  assume "fst (followFocused b w)"
  then show "lastGeometry (state (snd (followFocused b w))) = None"
    by (simp add: lastGeometry_followFocused)
next
  show "fst (detach w)" by (simp add: fst_detach)
next
  show "lastGeometry (state (snd (detach w))) = None" by (rule lastGeometry_detach)
next
  assume "lastGeometry (state (step e w)) \<noteq> None
        \<and> lastGeometry (state (step e w)) \<noteq> lastGeometry (state w)"
  then show "\<exists>j g. e = PollDone j (GeometryResult (Some g))
                 \<and> lastGeometry (state (step e w))
                     = Some \<lparr> x = x g, y = y g, width = width g, height = height g \<rparr>"
    using lastGeometry_step [of e w] by auto
next
  assume a: "AttachState_invariant w \<and> engine_ok w \<and> (replaces_state e w \<longrightarrow> no_geometry_inflight w)"
  then have "AttachState_invariant (step e w) \<and> engine_ok (step e w)"
    by (intro full_inv_step) simp_all
  then show "AttachState_invariant (step e w)" and "engine_ok (step e w)" by simp_all
qed

theorem AttachState_preserved_witness:
  "target_matches_mode (state enabled_world)
   \<and> AttachState_invariant enabled_world \<and> engine_ok enabled_world
   \<and> no_geometry_inflight enabled_world
   \<and> target_matches_mode (state (step (CallAttach 7) enabled_world))
   \<and> AttachState_invariant (step (CallAttach 7) enabled_world)
   \<and> engine_ok (step (CallAttach 7) enabled_world)
   \<and> fst (attach 7 enabled_world)
   \<and> lastGeometry (state (snd (attach 7 enabled_world))) = None
   \<and> fst (followFocused True enabled_world)
   \<and> lastGeometry (state (snd (followFocused True enabled_world))) = None
   \<and> lastGeometry (state (snd (detach enabled_world))) = None
   \<and> \<not> replaces_state (TimerFire 0) (step (CallAttach 7) enabled_world)
   \<and> AttachState_invariant (step (TimerFire 0) (step (CallAttach 7) enabled_world))"
proof -
  have t: "target_matches_mode (state enabled_world)"
    by (simp add: enabled_world_def new_service_def)
  have f: "AttachState_invariant enabled_world \<and> engine_ok enabled_world"
    by (simp add: enabled_world_def full_inv_new_service)
  have n: "no_geometry_inflight enabled_world"
    by (simp add: no_geometry_inflight_def enabled_world_def new_service_def)
  have a: "fst (attach 7 enabled_world)" "fst (followFocused True enabled_world)"
    by (simp_all add: attach_eq followFocused_True_eq isEnabled_def enabled_world_def new_service_def)
  have r: "\<not> replaces_state (TimerFire 0) (step (CallAttach 7) enabled_world)"
    by (simp add: replaces_state_def)
  have 1: "AttachState_invariant (step (CallAttach 7) enabled_world)
           \<and> engine_ok (step (CallAttach 7) enabled_world)"
    using f n AttachState_preserved [of enabled_world "CallAttach 7" 7 True] by simp
  show ?thesis
    using t f n a r 1
      AttachState_preserved [of enabled_world "CallAttach 7" 7 True]
      AttachState_preserved [of "step (CallAttach 7) enabled_world" "TimerFire 0" 7 True]
    by simp
qed

section \<open>After detach(), with polls in flight\<close>











end
